theory Spec2Isabelle
  imports Main "HOL-Library.AList"
begin

section \<open>The extraction engine of \<open>youngbench/dataset/utils/extraction.py\<close>\<close>

text \<open>
  A shallow embedding of \<open>extract_network\<close>, \<open>extract_networks\<close>, \<open>extract_from_fp\<close> and
  \<open>extract_from_gp\<close>. Python dictionaries are association lists updated with
  \<open>AList.update\<close> (an existing key keeps its position and takes the new value, a new key
  goes to the end, as in a Python \<open>dict\<close>) and read with \<open>map_of\<close>. Every exception of
  the source is a value of \<open>error\<close>; a function that can raise returns \<open>error + 'a\<close>.
\<close>

subsection \<open>Errors\<close>

datatype error =
    SchemaError          \<comment> \<open>\<open>onnx.defs.get_schema\<close> knows no such operator\<close>
  | IndexError           \<comment> \<open>a list read out of range\<close>
  | KeyError             \<comment> \<open>a dictionary read at a missing key\<close>
  | NameError            \<comment> \<open>a name that is bound nowhere\<close>
  | AssertNotNetwork     \<comment> \<open>\<open>assert isinstance(fp_network, Network)\<close>\<close>
  | AssertNotDAG         \<comment> \<open>\<open>assert networkx.is_directed_acyclic_graph(nn_graph)\<close>\<close>
  | RecursionError       \<comment> \<open>the interpreter's recursion limit\<close>

subsection \<open>The ONNX messages read by the engine\<close>

datatype attribute_type = GRAPH | GRAPHS | OtherType

text \<open>
  A value annotation (graph input, \<open>value_info\<close>, graph output) is its name with the
  dictionary \<open>MessageToDict\<close> gives for its type; an initializer is its name with the
  \<open>dataType\<close> entry of its dictionary, absent when the tensor carries none. An
  attribute holds its name, its type, the graph \<open>g\<close> (the empty graph when unset), the
  list \<open>graphs\<close> and the dictionary \<open>MessageToDict\<close> gives for it.
\<close>

datatype graph_proto = GraphProto
    (gp_node: "node_proto list")
    (gp_initializer: "(string \<times> string option) list")
    (gp_input: "(string \<times> string) list")
    (gp_value_info: "(string \<times> string) list")
    (gp_output: "(string \<times> string) list")
and node_proto = NodeProto
    (np_op_type: string)
    (np_domain: string)
    (np_input: "string list")
    (np_output: "string list")
    (np_attribute: "attribute_proto list")
and attribute_proto = AttributeProto
    (ap_name: string)
    (ap_type: attribute_type)
    (ap_g: graph_proto)
    (ap_graphs: "graph_proto list")
    (ap_dict: string)

record function_proto =
  fn_name :: string
  fn_domain :: string
  fn_node :: "node_proto list"

record model_proto =
  m_graph :: graph_proto
  m_functions :: "function_proto list"

subsection \<open>Operator schemas\<close>

datatype formal_parameter_option = Single | Optional | Variadic

record formal_parameter =
  prm_name :: string
  prm_option :: formal_parameter_option

record op_schema =
  inputs :: "formal_parameter list"
  outputs :: "formal_parameter list"

subsection \<open>Nodes, graphs and networks\<close>

text \<open>
  Modelled from the spec: the classes \<open>Node\<close> and \<open>Network\<close> of
  \<open>youngbench.dataset.modules\<close> are not part of the sources; they are taken as the plain
  records of their constructor arguments (section 3 of the specification), and the
  identifier of a network is a parameter of the engine (\<open>net_identifier\<close> below).
\<close>

datatype attribute_value =
    Identifiers "string list"   \<comment> \<open>the identifiers of the networks of a graph attribute\<close>
  | Identifier string            \<comment> \<open>the identifier of a function's network\<close>
  | Converted string             \<comment> \<open>\<open>MessageToDict(attribute)\<close>\<close>

record parameter_info =
  dims :: "string list"
  dataType :: string

record node =
  operator_type :: string
  operator_domain :: string
  attributes :: "(string \<times> attribute_value) list"
  parameters :: "(string \<times> parameter_info) list"
  operands :: "(string \<times> string) list"
  results :: "(string \<times> string) list"

text \<open>
  An edge of the \<open>networkx.DiGraph\<close> carries \<open>u_opn\<close>, \<open>v_opn\<close>, \<open>u_opi\<close>, \<open>v_opi\<close>. The
  graph keeps its vertices and its edges in insertion order; the feature dictionary
  that \<open>add_node\<close> attaches to a vertex is the \<open>Node\<close> kept in \<open>nn_nodes\<close>.
\<close>

record edge_label =
  u_opn :: string
  v_opn :: string
  u_opi :: int
  v_opi :: int

record digraph =
  g_nodes :: "string list"
  g_edges :: "((string \<times> string) \<times> edge_label) list"

record network =
  nn_graph :: digraph
  nn_nodes :: "(string \<times> node) list"
  nn_size :: nat
  is_sub :: bool
  is_fnc :: bool

datatype registry_entry = Raw function_proto | Resolved network

type_synonym registry = "((string \<times> string) \<times> registry_entry) list"

text \<open>
  What the engine takes from outside: the operator domains of \<open>ONNXOperatorDomain\<close>
  (\<open>youngbench.constants\<close> is not part of the sources), the schema table behind
  \<open>onnx.defs.get_schema\<close> (\<open>None\<close> where it raises) and the identifier of a network.
\<close>

record env =
  operator_domains :: "string list"
  get_schema :: "string \<Rightarrow> string \<Rightarrow> op_schema option"
  net_identifier :: "network \<Rightarrow> string"

subsection \<open>Python primitives\<close>

text \<open>\<open>xs[i]\<close>: a negative index counts from the end, an index out of range raises.\<close>

definition py_index :: "'a list \<Rightarrow> int \<Rightarrow> error + 'a" where
  "py_index xs i =
     (if 0 \<le> i \<and> i < int (length xs) then Inr (xs ! nat i)
      else if i < 0 \<and> 0 \<le> int (length xs) + i then Inr (xs ! nat (int (length xs) + i))
      else Inl IndexError)"

text \<open>\<open>str(n)\<close> for a natural number: its decimal digits.\<close>

definition digit :: "nat \<Rightarrow> char" where
  "digit d = ''0123456789'' ! d"

function str :: "nat \<Rightarrow> string" where
  "str n = (if n < 10 then [digit n] else str (n div 10) @ [digit (n mod 10)])"
  by pat_completeness auto
termination
  by (relation "measure id") auto

declare str.simps [simp del]

subsection \<open>Slot names (the Node Normalizer's arithmetic)\<close>

text \<open>
  Lines 92--94 (and 101--103, 229--231, 240--242, 252--254):
  \<^verbatim>\<open>if index >= len(slots) and slots[-1].option == slots[-1].option.Variadic.value:
      index = len(slots) - 1
      variadic_index += 1\<close>
  The conjunction is evaluated left to right, so \<open>slots[-1]\<close> is read only when the
  index is past the end.
\<close>

definition variadic_shift :: "formal_parameter list \<Rightarrow> int \<Rightarrow> nat \<Rightarrow> error + (int \<times> nat)" where
  "variadic_shift slots index variadic_index =
     (if int (length slots) \<le> index then
        (case py_index slots (- 1) of
           Inl e \<Rightarrow> Inl e
         | Inr l \<Rightarrow>
             if prm_option l = Variadic then Inr (int (length slots) - 1, variadic_index + 1)
             else Inr (index, variadic_index))
      else Inr (index, variadic_index))"

text \<open>
  Line 95 (and 104, 232, 243, 255):
  \<^verbatim>\<open>slots[index].name + (f'_{variadic_index}' if variadic_index else '')\<close>
\<close>

definition slot_name :: "formal_parameter list \<Rightarrow> int \<Rightarrow> nat \<Rightarrow> error + string" where
  "slot_name slots index variadic_index =
     (case py_index slots index of
        Inl e \<Rightarrow> Inl e
      | Inr p \<Rightarrow> Inr (prm_name p @ (if variadic_index \<noteq> 0 then ''_'' @ str variadic_index else '''')))"

text \<open>The two steps together: the slot name, the index and the counter after them.\<close>

definition resolve_slot ::
  "formal_parameter list \<Rightarrow> int \<Rightarrow> nat \<Rightarrow> error + (string \<times> int \<times> nat)" where
  "resolve_slot slots index variadic_index =
     (case variadic_shift slots index variadic_index of
        Inl e \<Rightarrow> Inl e
      | Inr (index', variadic_index') \<Rightarrow>
          (case slot_name slots index' variadic_index' of
             Inl e \<Rightarrow> Inl e
           | Inr name \<Rightarrow> Inr (name, index', variadic_index')))"

type_synonym slot_ref = "string \<times> string \<times> int"
type_synonym value_index = "(string \<times> slot_ref) list"

text \<open>
  \<open>extract_from_fp\<close>, lines 91--97 and 100--106: the operand loop and the result loop
  have the same body; \<open>x2x\<close> is \<open>i2x\<close> or \<open>o2x\<close> and \<open>slots_of\<close> is \<open>operands\<close> or
  \<open>results\<close>. The loop variable \<open>index\<close> is bound afresh by \<open>enumerate\<close> at every turn.
\<close>

fun fp_slots ::
  "formal_parameter list \<Rightarrow> string \<Rightarrow> int \<Rightarrow> string list \<Rightarrow>
   nat \<times> value_index \<times> (string \<times> string) list \<Rightarrow>
   error + (nat \<times> value_index \<times> (string \<times> string) list)" where
  "fp_slots slots nid index [] st = Inr st"
| "fp_slots slots nid index (v # rest) (variadic_index, x2x, slots_of) =
     (case resolve_slot slots index variadic_index of
        Inl e \<Rightarrow> Inl e
      | Inr (name, index', variadic_index') \<Rightarrow>
          fp_slots slots nid (index + 1) rest
            (variadic_index', AList.update v (nid, name, index') x2x, AList.update name v slots_of))"

text \<open>
  \<open>extract_from_gp\<close>, lines 227--233: the parameter loop, over the inputs bound to an
  initializer.
\<close>

fun gp_parameters ::
  "formal_parameter list \<Rightarrow> (string \<times> parameter_info) list \<Rightarrow> int \<Rightarrow> string list \<Rightarrow>
   nat \<times> (string \<times> parameter_info) list \<Rightarrow>
   error + (nat \<times> (string \<times> parameter_info) list)" where
  "gp_parameters slots pm_info index [] st = Inr st"
| "gp_parameters slots pm_info index (v # rest) (variadic_index, params) =
     (case map_of pm_info v of
        None \<Rightarrow> gp_parameters slots pm_info (index + 1) rest (variadic_index, params)
      | Some info \<Rightarrow>
          (case resolve_slot slots index variadic_index of
             Inl e \<Rightarrow> Inl e
           | Inr (name, index', variadic_index') \<Rightarrow>
               gp_parameters slots pm_info (index + 1) rest
                 (variadic_index', AList.update name info params)))"

text \<open>
  \<open>extract_from_gp\<close>, lines 237--245 and 249--257: the operand loop and the result loop.
  The index is first cut to \<open>len(slots) - 1\<close> (lines 238 and 250), then the value is
  looked up in \<open>io_info\<close>.
\<close>

fun gp_slots ::
  "formal_parameter list \<Rightarrow> (string \<times> string) list \<Rightarrow> string \<Rightarrow> int \<Rightarrow> string list \<Rightarrow>
   nat \<times> value_index \<times> (string \<times> string) list \<Rightarrow>
   error + (nat \<times> value_index \<times> (string \<times> string) list)" where
  "gp_slots slots io_info nid index [] st = Inr st"
| "gp_slots slots io_info nid index (v # rest) (variadic_index, x2x, slots_of) =
     (case map_of io_info v of
        None \<Rightarrow> gp_slots slots io_info nid (index + 1) rest (variadic_index, x2x, slots_of)
      | Some info \<Rightarrow>
          (case resolve_slot slots (min index (int (length slots) - 1)) variadic_index of
             Inl e \<Rightarrow> Inl e
           | Inr (name, index', variadic_index') \<Rightarrow>
               gp_slots slots io_info nid (index + 1) rest
                 (variadic_index', AList.update v (nid, name, index') x2x,
                  AList.update name info slots_of)))"

subsection \<open>One node\<close>

text \<open>
  Lines 108--115: a built-in node of a function body. The counter \<open>variadic_index\<close> is
  set to 0 before the operand loop only (line 90), so the result loop goes on from
  where the operand loop left it.
\<close>

definition fp_builtin_node ::
  "op_schema \<Rightarrow> string \<Rightarrow> node_proto \<Rightarrow> (string \<times> attribute_value) list \<Rightarrow>
   value_index \<Rightarrow> value_index \<Rightarrow> error + (node \<times> value_index \<times> value_index)" where
  "fp_builtin_node operator nid n attrs i2x o2x =
     (case fp_slots (inputs operator) nid 0 (np_input n) (0, i2x, []) of
        Inl e \<Rightarrow> Inl e
      | Inr (variadic_index, i2x', operands') \<Rightarrow>
          (case fp_slots (outputs operator) nid 0 (np_output n) (variadic_index, o2x, []) of
             Inl e \<Rightarrow> Inl e
           | Inr (variadic_index', o2x', results') \<Rightarrow>
               Inr (\<lparr>operator_type = np_op_type n, operator_domain = np_domain n,
                     attributes = attrs, parameters = [],
                     operands = operands', results = results'\<rparr>, i2x', o2x')))"

text \<open>
  Lines 225--266: a built-in node of a graph. \<open>variadic_index\<close> is set to 0 before each
  of the three loops (lines 226, 236, 248).
\<close>

definition gp_builtin_node ::
  "op_schema \<Rightarrow> (string \<times> parameter_info) list \<Rightarrow> (string \<times> string) list \<Rightarrow> string \<Rightarrow>
   node_proto \<Rightarrow> (string \<times> attribute_value) list \<Rightarrow>
   value_index \<Rightarrow> value_index \<Rightarrow> error + (node \<times> value_index \<times> value_index)" where
  "gp_builtin_node operator pm_info io_info nid n attrs i2x o2x =
     (case gp_parameters (inputs operator) pm_info 0 (np_input n) (0, []) of
        Inl e \<Rightarrow> Inl e
      | Inr (vp, parameters') \<Rightarrow>
          (case gp_slots (inputs operator) io_info nid 0 (np_input n) (0, i2x, []) of
             Inl e \<Rightarrow> Inl e
           | Inr (vi, i2x', operands') \<Rightarrow>
               (case gp_slots (outputs operator) io_info nid 0 (np_output n) (0, o2x, []) of
                  Inl e \<Rightarrow> Inl e
                | Inr (vo, o2x', results') \<Rightarrow>
                    Inr (\<lparr>operator_type = np_op_type n, operator_domain = np_domain n,
                          attributes = attrs, parameters = parameters',
                          operands = operands', results = results'\<rparr>, i2x', o2x'))))"

text \<open>
  Lines 130--132 and 135--137: the slots of a node outside the built-in domains, in a
  function body: every value under its own name.
\<close>

fun fp_raw_slots ::
  "string \<Rightarrow> int \<Rightarrow> string list \<Rightarrow> value_index \<times> (string \<times> string) list \<Rightarrow>
   value_index \<times> (string \<times> string) list" where
  "fp_raw_slots nid index [] st = st"
| "fp_raw_slots nid index (v # rest) (x2x, slots_of) =
     fp_raw_slots nid (index + 1) rest
       (AList.update v (nid, v, index) x2x, AList.update v v slots_of)"

text \<open>Lines 276--279 and 282--285: the same in a graph, for the annotated values.\<close>

fun gp_raw_slots ::
  "(string \<times> string) list \<Rightarrow> string \<Rightarrow> int \<Rightarrow> string list \<Rightarrow>
   value_index \<times> (string \<times> string) list \<Rightarrow> value_index \<times> (string \<times> string) list" where
  "gp_raw_slots io_info nid index [] st = st"
| "gp_raw_slots io_info nid index (v # rest) (x2x, slots_of) =
     (case map_of io_info v of
        None \<Rightarrow> gp_raw_slots io_info nid (index + 1) rest (x2x, slots_of)
      | Some info \<Rightarrow>
          gp_raw_slots io_info nid (index + 1) rest
            (AList.update v (nid, v, index) x2x, AList.update v info slots_of))"

text \<open>
  Lines 117--146: a node outside the built-in domains, in a function body. \<open>nested\<close> is
  the call \<open>extract_from_fp(fp_network, fp_networks, deep_extract=deep_extract,
  is_sub=True)\<close> of line 122. When it returns, line 123 reads \<open>function.name\<close>, and no
  \<open>function\<close> is bound in \<open>extract_from_fp\<close> or in the module: the key of the
  assignment raises before anything is stored, so lines 124 and 127 are not reached
  on this path and the registry is left as it was.
\<close>

definition fp_call_node ::
  "(function_proto \<Rightarrow> error + (network \<times> network list)) \<Rightarrow> env \<Rightarrow> registry \<Rightarrow> string \<Rightarrow>
   node_proto \<Rightarrow> value_index \<Rightarrow> value_index \<Rightarrow> error + (node \<times> value_index \<times> value_index)" where
  "fp_call_node nested env fp_networks nid n i2x o2x =
     (case (case map_of fp_networks (np_op_type n, np_domain n) of
              None \<Rightarrow> Inr []
            | Some (Raw f) \<Rightarrow>
                (case nested f of
                   Inl e \<Rightarrow> Inl e
                 | Inr (fp_network, fp_deep_networks) \<Rightarrow> Inl NameError)
            | Some (Resolved fp_network) \<Rightarrow>
                Inr [(''function'', Identifier (net_identifier env fp_network))]) of
        Inl e \<Rightarrow> Inl e
      | Inr attrs \<Rightarrow>
          (case fp_raw_slots nid 0 (np_input n) (i2x, []) of (i2x', operands') \<Rightarrow>
          (case fp_raw_slots nid 0 (np_output n) (o2x, []) of (o2x', results') \<Rightarrow>
             Inr (\<lparr>operator_type = np_op_type n, operator_domain = np_domain n,
                   attributes = attrs, parameters = [],
                   operands = operands', results = results'\<rparr>, i2x', o2x'))))"

text \<open>Lines 268--294: a node outside the built-in domains, in a graph.\<close>

definition gp_call_node ::
  "env \<Rightarrow> registry \<Rightarrow> (string \<times> string) list \<Rightarrow> string \<Rightarrow>
   node_proto \<Rightarrow> value_index \<Rightarrow> value_index \<Rightarrow> error + (node \<times> value_index \<times> value_index)" where
  "gp_call_node env fp_networks io_info nid n i2x o2x =
     (case (case map_of fp_networks (np_op_type n, np_domain n) of
              None \<Rightarrow> Inr []
            | Some (Raw f) \<Rightarrow> Inl AssertNotNetwork
            | Some (Resolved fp_network) \<Rightarrow>
                Inr [(''function'', Identifier (net_identifier env fp_network))]) of
        Inl e \<Rightarrow> Inl e
      | Inr attrs \<Rightarrow>
          (case gp_raw_slots io_info nid 0 (np_input n) (i2x, []) of (i2x', operands') \<Rightarrow>
          (case gp_raw_slots io_info nid 0 (np_output n) (o2x, []) of (o2x', results') \<Rightarrow>
             Inr (\<lparr>operator_type = np_op_type n, operator_domain = np_domain n,
                   attributes = attrs, parameters = [],
                   operands = operands', results = results'\<rparr>, i2x', o2x'))))"

subsection \<open>The graph of one level\<close>

text \<open>
  \<open>DiGraph.add_node\<close> and \<open>DiGraph.add_edge\<close>: an edge brings its end points into the
  graph, and an edge added again keeps its place and takes the new label.
\<close>

definition add_node :: "string \<Rightarrow> digraph \<Rightarrow> digraph" where
  "add_node v g = (if v \<in> set (g_nodes g) then g else g\<lparr>g_nodes := g_nodes g @ [v]\<rparr>)"

definition add_edge :: "string \<Rightarrow> string \<Rightarrow> edge_label \<Rightarrow> digraph \<Rightarrow> digraph" where
  "add_edge u v l g =
     (add_node v (add_node u g))\<lparr>g_edges := AList.update (u, v) l (g_edges g)\<rparr>"

text \<open>
  Lines 155--159 and 161--165 (303--307 and 309--313): for each value name of the list
  that is in both indexes, the edge from \<open>o2x[name]\<close> to \<open>i2x[name]\<close>.
\<close>

fun link_values :: "value_index \<Rightarrow> value_index \<Rightarrow> string list \<Rightarrow> digraph \<Rightarrow> digraph" where
  "link_values i2x o2x [] g = g"
| "link_values i2x o2x (v # rest) g =
     (case (map_of o2x v, map_of i2x v) of
        (Some (u_nid, u_name, u_index), Some (v_nid, v_name, v_index)) \<Rightarrow>
          link_values i2x o2x rest
            (add_edge u_nid v_nid
               \<lparr>u_opn = u_name, v_opn = v_name, u_opi = u_index, v_opi = v_index\<rparr> g)
      | _ \<Rightarrow> link_values i2x o2x rest g)"

text \<open>Lines 152--165 (300--313): the second pass over the nodes.\<close>

fun link_nodes :: "value_index \<Rightarrow> value_index \<Rightarrow> node_proto list \<Rightarrow> digraph \<Rightarrow> digraph" where
  "link_nodes i2x o2x [] g = g"
| "link_nodes i2x o2x (n # rest) g =
     link_nodes i2x o2x rest
       (link_values i2x o2x (np_output n) (link_values i2x o2x (np_input n) g))"

text \<open>
  \<open>networkx.is_directed_acyclic_graph\<close>: the graph is acyclic when its vertices can all
  be taken away, round after round, each round taking the vertices that have no edge
  coming in from a vertex still there. A round that can take nothing leaves a cycle.
\<close>

fun peel :: "nat \<Rightarrow> string list \<Rightarrow> (string \<times> string) list \<Rightarrow> bool" where
  "peel 0 vs es = (vs = [])"
| "peel (Suc k) vs es =
     (if vs = [] then True
      else if filter (\<lambda>v. v \<notin> snd ` set es) vs = [] then False
      else peel k (filter (\<lambda>v. v \<in> snd ` set es) vs)
                  (filter (\<lambda>e. fst e \<in> snd ` set es) es))"

definition is_directed_acyclic_graph :: "digraph \<Rightarrow> bool" where
  "is_directed_acyclic_graph g = peel (length (g_nodes g)) (g_nodes g) (map fst (g_edges g))"

text \<open>
  The state of the first pass over the nodes of a level: the graph, \<open>nn_nodes\<close>,
  \<open>nn_size\<close>, \<open>deep_networks\<close>, \<open>i2x\<close> and \<open>o2x\<close>.
\<close>

record level =
  lv_graph :: digraph
  lv_nodes :: "(string \<times> node) list"
  lv_size :: nat
  lv_deep :: "network list"
  lv_i2x :: value_index
  lv_o2x :: value_index

definition empty_level :: level where
  "empty_level = \<lparr>lv_graph = \<lparr>g_nodes = [], g_edges = []\<rparr>, lv_nodes = [], lv_size = 0,
                   lv_deep = [], lv_i2x = [], lv_o2x = []\<rparr>"

text \<open>Lines 148--150 (296--298), with the indexes and the networks found for the node.\<close>

definition level_add ::
  "string \<Rightarrow> node \<Rightarrow> value_index \<Rightarrow> value_index \<Rightarrow> network list \<Rightarrow> level \<Rightarrow> level" where
  "level_add nid nd i2x o2x deep_networks lv =
     \<lparr>lv_graph = add_node nid (lv_graph lv),
      lv_nodes = AList.update nid nd (lv_nodes lv),
      lv_size = lv_size lv + 1,
      lv_deep = deep_networks, lv_i2x = i2x, lv_o2x = o2x\<rparr>"

text \<open>Lines 152--171 (300--319): the edges, the assertion and the network.\<close>

definition assemble ::
  "node_proto list \<Rightarrow> bool \<Rightarrow> bool \<Rightarrow> level \<Rightarrow> error + (network \<times> network list)" where
  "assemble nodes sub fnc lv =
     (if is_directed_acyclic_graph (link_nodes (lv_i2x lv) (lv_o2x lv) nodes (lv_graph lv))
      then Inr (\<lparr>nn_graph = link_nodes (lv_i2x lv) (lv_o2x lv) nodes (lv_graph lv),
                 nn_nodes = lv_nodes lv, nn_size = lv_size lv,
                 is_sub = sub, is_fnc = fnc\<rparr>, lv_deep lv)
      else Inl AssertNotDAG)"

subsection \<open>\<open>extract_from_gp\<close>\<close>

text \<open>
  Lines 182--188: \<open>pm_info\<close>. \<open>initializer_dict['dataType']\<close> raises when the dictionary
  has no such entry; \<open>dims\<close> is the constant list of line 186.
\<close>

fun build_pm_info ::
  "(string \<times> string option) list \<Rightarrow> (string \<times> parameter_info) list \<Rightarrow>
   error + (string \<times> parameter_info) list" where
  "build_pm_info [] pm_info = Inr pm_info"
| "build_pm_info ((name, None) # rest) pm_info = Inl KeyError"
| "build_pm_info ((name, Some t) # rest) pm_info =
     build_pm_info rest (AList.update name \<lparr>dims = [''dims''], dataType = t\<rparr> pm_info)"

text \<open>Lines 191--197: \<open>io_info\<close>, filled from one list of annotations.\<close>

fun build_io_info ::
  "(string \<times> string) list \<Rightarrow> (string \<times> string) list \<Rightarrow> (string \<times> string) list" where
  "build_io_info [] io_info = io_info"
| "build_io_info ((name, t) # rest) io_info = build_io_info rest (AList.update name t io_info)"

text \<open>
  The recursion of \<open>extract_from_gp\<close> goes through the nodes of the graph, the
  attributes of a node and the graphs of an attribute; the sizes of these lists are
  the measures of its termination.
\<close>

lemma node_list_measure [measure_function]: "is_measure (size_list (size :: node_proto \<Rightarrow> nat))"
  by (rule is_measure_trivial)
lemma attribute_list_measure [measure_function]: "is_measure (size_list (size :: attribute_proto \<Rightarrow> nat))"
  by (rule is_measure_trivial)
lemma graph_list_measure [measure_function]: "is_measure (size_list (size :: graph_proto \<Rightarrow> nat))"
  by (rule is_measure_trivial)

text \<open>
  \<open>extract_from_gp\<close> (lines 174--319) with its loops: \<open>gp_nodes\<close> is the first pass over
  the nodes (lines 201--298), \<open>extract_attributes\<close> the loop over the attributes of a
  built-in node (lines 207--223, the same text as lines 71--87 of \<open>extract_from_fp\<close>),
  \<open>extract_attribute\<close> its body, which gives the value stored under the attribute's
  name and the networks appended to \<open>deep_networks\<close>, and \<open>extract_graphs\<close> the loop over
  \<open>attribute.graphs\<close> (lines 216--219). The registry is only read here.
\<close>

fun extract_from_gp ::
  "env \<Rightarrow> registry \<Rightarrow> bool \<Rightarrow> bool \<Rightarrow> graph_proto \<Rightarrow> error + (network \<times> network list)"
and gp_nodes ::
  "env \<Rightarrow> registry \<Rightarrow> bool \<Rightarrow> (string \<times> parameter_info) list \<Rightarrow> (string \<times> string) list \<Rightarrow>
   nat \<Rightarrow> node_proto list \<Rightarrow> level \<Rightarrow> error + level"
and extract_attributes ::
  "env \<Rightarrow> registry \<Rightarrow> bool \<Rightarrow> attribute_proto list \<Rightarrow>
   (string \<times> attribute_value) list \<times> network list \<Rightarrow>
   error + ((string \<times> attribute_value) list \<times> network list)"
and extract_attribute ::
  "env \<Rightarrow> registry \<Rightarrow> bool \<Rightarrow> attribute_proto \<Rightarrow> error + (attribute_value \<times> network list)"
and extract_graphs ::
  "env \<Rightarrow> registry \<Rightarrow> bool \<Rightarrow> graph_proto list \<Rightarrow> network list \<times> network list \<Rightarrow>
   error + (network list \<times> network list)"
where
  "extract_from_gp env fp_networks deep_extract sub (GraphProto nodes inits ins vis outs) =
     (case build_pm_info inits [] of
        Inl e \<Rightarrow> Inl e
      | Inr pm_info \<Rightarrow>
          (case gp_nodes env fp_networks deep_extract pm_info
                  (build_io_info outs (build_io_info vis (build_io_info ins []))) 0 nodes empty_level of
             Inl e \<Rightarrow> Inl e
           | Inr lv \<Rightarrow> assemble nodes sub False lv))"
| "gp_nodes env fp_networks deep_extract pm_info io_info k [] lv = Inr lv"
| "gp_nodes env fp_networks deep_extract pm_info io_info k (NodeProto ty dmn ins outs attrs # rest) lv =
     (if dmn \<in> set (operator_domains env) then
        (case get_schema env ty dmn of
           None \<Rightarrow> Inl SchemaError
         | Some operator \<Rightarrow>
             (case extract_attributes env fp_networks deep_extract attrs ([], lv_deep lv) of
                Inl e \<Rightarrow> Inl e
              | Inr (attributes', deep_networks) \<Rightarrow>
                  (case gp_builtin_node operator pm_info io_info (str k)
                          (NodeProto ty dmn ins outs attrs) attributes' (lv_i2x lv) (lv_o2x lv) of
                     Inl e \<Rightarrow> Inl e
                   | Inr (nd, i2x, o2x) \<Rightarrow>
                       gp_nodes env fp_networks deep_extract pm_info io_info (Suc k) rest
                         (level_add (str k) nd i2x o2x deep_networks lv))))
      else
        (case gp_call_node env fp_networks io_info (str k)
                (NodeProto ty dmn ins outs attrs) (lv_i2x lv) (lv_o2x lv) of
           Inl e \<Rightarrow> Inl e
         | Inr (nd, i2x, o2x) \<Rightarrow>
             gp_nodes env fp_networks deep_extract pm_info io_info (Suc k) rest
               (level_add (str k) nd i2x o2x (lv_deep lv) lv)))"
| "extract_attributes env fp_networks deep_extract [] st = Inr st"
| "extract_attributes env fp_networks deep_extract (a # rest) (attributes', deep_networks) =
     (case extract_attribute env fp_networks deep_extract a of
        Inl e \<Rightarrow> Inl e
      | Inr (v, found) \<Rightarrow>
          extract_attributes env fp_networks deep_extract rest
            (AList.update (ap_name a) v attributes', deep_networks @ found))"
| "extract_attribute env fp_networks deep_extract (AttributeProto name ty g gs d) =
     (if ty = GRAPH \<or> ty = GRAPHS then
        (case (if deep_extract \<and> ty = GRAPH then
                 (case extract_from_gp env fp_networks deep_extract True g of
                    Inl e \<Rightarrow> Inl e
                  | Inr (extracted, deep_extracted) \<Rightarrow> Inr ([extracted], deep_extracted))
               else Inr ([], [])) of
           Inl e \<Rightarrow> Inl e
         | Inr one \<Rightarrow>
             (case (if deep_extract \<and> ty = GRAPHS
                    then extract_graphs env fp_networks deep_extract gs one
                    else Inr one) of
                Inl e \<Rightarrow> Inl e
              | Inr (all_extracted, all_deep_extracted) \<Rightarrow>
                  Inr (Identifiers (map (net_identifier env) all_extracted),
                       all_extracted @ all_deep_extracted)))
      else Inr (Converted d, []))"
| "extract_graphs env fp_networks deep_extract [] st = Inr st"
| "extract_graphs env fp_networks deep_extract (g # rest) (all_extracted, all_deep_extracted) =
     (case extract_from_gp env fp_networks deep_extract True g of
        Inl e \<Rightarrow> Inl e
      | Inr (extracted, deep_extracted) \<Rightarrow>
          extract_graphs env fp_networks deep_extract rest
            (all_extracted @ [extracted], all_deep_extracted @ deep_extracted))"

subsection \<open>\<open>extract_from_fp\<close>\<close>

text \<open>
  The first pass over the nodes of a function body (lines 65--150). \<open>nested\<close> is the
  recursive call of line 122.
\<close>

fun fp_nodes ::
  "(function_proto \<Rightarrow> error + (network \<times> network list)) \<Rightarrow> env \<Rightarrow> registry \<Rightarrow> bool \<Rightarrow>
   nat \<Rightarrow> node_proto list \<Rightarrow> level \<Rightarrow> error + level" where
  "fp_nodes nested env fp_networks deep_extract k [] lv = Inr lv"
| "fp_nodes nested env fp_networks deep_extract k (n # rest) lv =
     (if np_domain n \<in> set (operator_domains env) then
        (case get_schema env (np_op_type n) (np_domain n) of
           None \<Rightarrow> Inl SchemaError
         | Some operator \<Rightarrow>
             (case extract_attributes env fp_networks deep_extract (np_attribute n)
                     ([], lv_deep lv) of
                Inl e \<Rightarrow> Inl e
              | Inr (attributes', deep_networks) \<Rightarrow>
                  (case fp_builtin_node operator (str k) n attributes' (lv_i2x lv) (lv_o2x lv) of
                     Inl e \<Rightarrow> Inl e
                   | Inr (nd, i2x, o2x) \<Rightarrow>
                       fp_nodes nested env fp_networks deep_extract (Suc k) rest
                         (level_add (str k) nd i2x o2x deep_networks lv))))
      else
        (case fp_call_node nested env fp_networks (str k) n (lv_i2x lv) (lv_o2x lv) of
           Inl e \<Rightarrow> Inl e
         | Inr (nd, i2x, o2x) \<Rightarrow>
             fp_nodes nested env fp_networks deep_extract (Suc k) rest
               (level_add (str k) nd i2x o2x (lv_deep lv) lv)))"

text \<open>
  \<open>extract_from_fp\<close> (lines 57--171). A function may call itself, directly or through
  others, so the recursion of line 122 need not end: the first argument is the number
  of nested calls the interpreter still allows, and \<open>RecursionError\<close> is raised when
  none is left.
\<close>

primrec extract_from_fp ::
  "nat \<Rightarrow> env \<Rightarrow> registry \<Rightarrow> bool \<Rightarrow> bool \<Rightarrow> function_proto \<Rightarrow>
   error + (network \<times> network list)" where
  "extract_from_fp 0 env fp_networks deep_extract sub fp = Inl RecursionError"
| "extract_from_fp (Suc depth) env fp_networks deep_extract sub fp =
     (case fp_nodes (extract_from_fp depth env fp_networks deep_extract True)
             env fp_networks deep_extract 0 (fn_node fp) empty_level of
        Inl e \<Rightarrow> Inl e
      | Inr lv \<Rightarrow> assemble (fn_node fp) sub True lv)"

subsection \<open>\<open>extract_network\<close> and \<open>extract_networks\<close>\<close>

text \<open>
  The model is the one \<open>infer_shapes\<close> returns. Lines 26--29: the registry is empty,
  \<open>deep_extract\<close> is false and \<open>is_sub\<close> takes its default \<open>bool()\<close>.
\<close>

definition extract_network :: "env \<Rightarrow> model_proto \<Rightarrow> error + network" where
  "extract_network env m =
     (case extract_from_gp env [] False False (m_graph m) of
        Inl e \<Rightarrow> Inl e
      | Inr (net, deep_networks) \<Rightarrow> Inr net)"

text \<open>Lines 36--38: every function under its name and domain, as it is declared.\<close>

fun seed_registry :: "function_proto list \<Rightarrow> registry \<Rightarrow> registry" where
  "seed_registry [] fp_networks = fp_networks"
| "seed_registry (f # rest) fp_networks =
     seed_registry rest (AList.update (fn_name f, fn_domain f) (Raw f) fp_networks)"

text \<open>
  Lines 40--49: the loop over the functions. It returns the registry as the loop left
  it, also when an exception ends the loop, with the exception or \<open>deep_networks\<close>.
\<close>

fun resolve_functions ::
  "nat \<Rightarrow> env \<Rightarrow> bool \<Rightarrow> function_proto list \<Rightarrow> registry \<Rightarrow> network list \<Rightarrow>
   registry \<times> (error + network list)" where
  "resolve_functions depth env deep_extract [] fp_networks deep_networks =
     (fp_networks, Inr deep_networks)"
| "resolve_functions depth env deep_extract (f # rest) fp_networks deep_networks =
     (case map_of fp_networks (fn_name f, fn_domain f) of
        None \<Rightarrow> (fp_networks, Inl KeyError)
      | Some (Raw r) \<Rightarrow>
          (case extract_from_fp depth env fp_networks deep_extract True f of
             Inl e \<Rightarrow> (fp_networks, Inl e)
           | Inr (fp_network, fp_deep_networks) \<Rightarrow>
               resolve_functions depth env deep_extract rest
                 (AList.update (fn_name f, fn_domain f) (Resolved fp_network) fp_networks)
                 (deep_networks @ [fp_network] @ fp_deep_networks))
      | Some (Resolved fp_network) \<Rightarrow>
          resolve_functions depth env deep_extract rest fp_networks
            (deep_networks @ [fp_network]))"

text \<open>
  Lines 32--54, with the registry at the end of the call beside the result;
  \<open>extract_networks\<close> is the result alone.
\<close>

definition extract_networks_registry ::
  "nat \<Rightarrow> env \<Rightarrow> model_proto \<Rightarrow> bool \<Rightarrow> registry \<times> (error + (network \<times> network list))" where
  "extract_networks_registry depth env m deep_extract =
     (case resolve_functions depth env deep_extract (m_functions m)
             (seed_registry (m_functions m) []) [] of
        (fp_networks, Inl e) \<Rightarrow> (fp_networks, Inl e)
      | (fp_networks, Inr deep_networks) \<Rightarrow>
          (case extract_from_gp env fp_networks deep_extract False (m_graph m) of
             Inl e \<Rightarrow> (fp_networks, Inl e)
           | Inr (net, gp_deep_networks) \<Rightarrow>
               (fp_networks, Inr (net, deep_networks @ gp_deep_networks))))"

definition extract_networks ::
  "nat \<Rightarrow> env \<Rightarrow> model_proto \<Rightarrow> bool \<Rightarrow> error + (network \<times> network list)" where
  "extract_networks depth env m deep_extract =
     snd (extract_networks_registry depth env m deep_extract)"

subsection \<open>Orderings and cycles\<close>

text \<open>
  \<open>comes_before order u v\<close>: in the list \<open>order\<close>, \<open>v\<close> stands after the first \<open>u\<close>.
\<close>

fun comes_before :: "string list \<Rightarrow> string \<Rightarrow> string \<Rightarrow> bool" where
  "comes_before [] u v = False"
| "comes_before (x # xs) u v = (if x = u then v \<in> set xs else comes_before xs u v)"

text \<open>
  A topological ordering of a graph lists each of its vertices once and has the source
  of every edge before its target.
\<close>

definition topological_order :: "string list \<Rightarrow> digraph \<Rightarrow> bool" where
  "topological_order order g \<longleftrightarrow>
     distinct order \<and> set order = set (g_nodes g) \<and>
     (\<forall>e \<in> set (g_edges g). comes_before order (fst (fst e)) (snd (fst e)))"


text \<open>The edges form a cycle: some vertex reaches itself along one edge or more.\<close>

definition has_cycle :: "digraph \<Rightarrow> bool" where
  "has_cycle g \<longleftrightarrow> (\<exists>v. (v, v) \<in> (fst ` set (g_edges g))\<^sup>+)"

text \<open>
  The graphs that \<open>add_node\<close> and \<open>add_edge\<close> build: no vertex twice, and the end
  points of every edge among the vertices.
\<close>

definition closed_graph :: "digraph \<Rightarrow> bool" where
  "closed_graph g \<longleftrightarrow>
     distinct (g_nodes g) \<and>
     (\<forall>e \<in> fst ` set (g_edges g). fst e \<in> set (g_nodes g) \<and> snd e \<in> set (g_nodes g))"

subsection \<open>Example inputs\<close>

text \<open>
  Three schemas of the default domain, as \<open>onnx.defs\<close> declares their slots, and an
  environment that knows them. The identifier of a network is its kind with its size.
\<close>

definition relu_schema :: op_schema where
  "relu_schema =
     \<lparr>inputs = [\<lparr>prm_name = ''X'', prm_option = Single\<rparr>],
      outputs = [\<lparr>prm_name = ''Y'', prm_option = Single\<rparr>]\<rparr>"

definition concat_schema :: op_schema where
  "concat_schema =
     \<lparr>inputs = [\<lparr>prm_name = ''a'', prm_option = Single\<rparr>,
                \<lparr>prm_name = ''b'', prm_option = Variadic\<rparr>],
      outputs = [\<lparr>prm_name = ''y'', prm_option = Single\<rparr>]\<rparr>"

definition if_schema :: op_schema where
  "if_schema =
     \<lparr>inputs = [\<lparr>prm_name = ''cond'', prm_option = Single\<rparr>],
      outputs = [\<lparr>prm_name = ''outputs'', prm_option = Variadic\<rparr>]\<rparr>"

definition onnx_env :: env where
  "onnx_env =
     \<lparr>operator_domains = ['''', ''ai.onnx.ml'', ''ai.onnx.preview.training''],
      get_schema = (\<lambda>ty dmn.
         if dmn \<noteq> '''' then None
         else if ty = ''Relu'' then Some relu_schema
         else if ty = ''Concat'' then Some concat_schema
         else if ty = ''If'' then Some if_schema
         else None),
      net_identifier = (\<lambda>net. (if is_fnc net then ''f'' else ''g'') @ str (nn_size net))\<rparr>"

text \<open>One producer of the value \<open>v\<close> and two consumers of it.\<close>

definition fan_out_graph :: graph_proto where
  "fan_out_graph = GraphProto
     [NodeProto ''Producer'' ''custom'' [] [''v''] [],
      NodeProto ''Consumer'' ''custom'' [''v''] [''r1''] [],
      NodeProto ''Consumer'' ''custom'' [''v''] [''r2''] []]
     [] [] [(''v'', ''T'')] [(''r1'', ''T1''), (''r2'', ''T2'')]"

text \<open>A node with four inputs for the two input slots \<open>a\<close> and \<open>b\<close>, \<open>b\<close> variadic.\<close>

definition concat_node :: node_proto where
  "concat_node = NodeProto ''Concat'' '''' [''x0'', ''x1'', ''x2'', ''x3''] [''out''] []"

definition concat_io_info :: "(string \<times> string) list" where
  "concat_io_info =
     [(''x0'', ''T0''), (''x1'', ''T1''), (''x2'', ''T2''), (''x3'', ''T3''), (''out'', ''T4'')]"

text \<open>The function \<open>F\<close> calls the function \<open>G\<close>, which is declared after it.\<close>

definition forward_call_model :: model_proto where
  "forward_call_model =
     \<lparr>m_graph = GraphProto [] [] [] [] [],
      m_functions =
        [\<lparr>fn_name = ''F'', fn_domain = ''custom'',
          fn_node = [NodeProto ''G'' ''custom'' [''x''] [''y''] []]\<rparr>,
         \<lparr>fn_name = ''G'', fn_domain = ''custom'', fn_node = []\<rparr>]\<rparr>"

text \<open>A model with one function, of empty body, and an empty main graph.\<close>

definition one_function_model :: model_proto where
  "one_function_model =
     \<lparr>m_graph = GraphProto [] [] [] [] [],
      m_functions = [\<lparr>fn_name = ''G'', fn_domain = ''custom'', fn_node = []\<rparr>]\<rparr>"

text \<open>A node whose only input \<open>W\<close> is an initializer that is also annotated.\<close>

definition relu_weight_node :: node_proto where
  "relu_weight_node = NodeProto ''Relu'' '''' [''W''] [''out''] []"


text \<open>A node outside the built-in domains.\<close>

definition custom_node :: node_proto where
  "custom_node = NodeProto ''Custom'' ''custom'' [''x''] [''y''] []"


text \<open>
  An \<open>If\<close> node with a graph under each of its two branches, the graph around it, and
  an attribute that holds the two graphs as a list.
\<close>

definition then_graph :: graph_proto where
  "then_graph =
     GraphProto [NodeProto ''Relu'' '''' [''t''] [''o1''] []] []
       [(''t'', ''T'')] [] [(''o1'', ''T'')]"

definition else_graph :: graph_proto where
  "else_graph = GraphProto [] [] [] [] []"

definition then_attribute :: attribute_proto where
  "then_attribute = AttributeProto ''then_branch'' GRAPH then_graph [] ''''"

definition else_attribute :: attribute_proto where
  "else_attribute = AttributeProto ''else_branch'' GRAPH else_graph [] ''''"

definition branches_attribute :: attribute_proto where
  "branches_attribute =
     AttributeProto ''branches'' GRAPHS (GraphProto [] [] [] [] []) [then_graph, else_graph] ''''"

definition if_node :: node_proto where
  "if_node = NodeProto ''If'' '''' [''c''] [''o''] [then_attribute, else_attribute]"

definition if_graph :: graph_proto where
  "if_graph = GraphProto [if_node] [] [(''c'', ''B'')] [] [(''o'', ''T'')]"

text \<open>The networks of the two branches.\<close>

definition then_network :: network where
  "then_network =
     \<lparr>nn_graph = \<lparr>g_nodes = [''0''], g_edges = []\<rparr>,
      nn_nodes = [(''0'', \<lparr>operator_type = ''Relu'', operator_domain = '''',
                           attributes = [], parameters = [],
                           operands = [(''X'', ''T'')], results = [(''Y'', ''T'')]\<rparr>)],
      nn_size = 1, is_sub = True, is_fnc = False\<rparr>"

definition else_network :: network where
  "else_network =
     \<lparr>nn_graph = \<lparr>g_nodes = [], g_edges = []\<rparr>, nn_nodes = [], nn_size = 0,
      is_sub = True, is_fnc = False\<rparr>"

text \<open>
  A model whose second function has a body with a cycle: its only node reads the
  value it writes.
\<close>

definition cyclic_function_model :: model_proto where
  "cyclic_function_model =
     \<lparr>m_graph = GraphProto [] [] [] [] [],
      m_functions =
        [\<lparr>fn_name = ''G'', fn_domain = ''custom'', fn_node = []\<rparr>,
         \<lparr>fn_name = ''H'', fn_domain = ''custom'',
          fn_node = [NodeProto ''Custom'' ''custom'' [''x''] [''x''] []]\<rparr>]\<rparr>"



text \<open>The network of \<open>if_graph\<close>, given the values of its two attributes.\<close>

definition if_network :: "attribute_value \<Rightarrow> attribute_value \<Rightarrow> network" where
  "if_network t e =
     \<lparr>nn_graph = \<lparr>g_nodes = [''0''], g_edges = []\<rparr>,
      nn_nodes = [(''0'', \<lparr>operator_type = ''If'', operator_domain = '''',
                           attributes = [(''then_branch'', t), (''else_branch'', e)],
                           parameters = [], operands = [(''cond'', ''B'')],
                           results = [(''outputs'', ''T'')]\<rparr>)],
      nn_size = 1, is_sub = False, is_fnc = False\<rparr>"

text \<open>The network of a function whose body is empty.\<close>

definition empty_function_network :: network where
  "empty_function_network =
     \<lparr>nn_graph = \<lparr>g_nodes = [], g_edges = []\<rparr>, nn_nodes = [], nn_size = 0,
      is_sub = True, is_fnc = True\<rparr>"





section \<open>Properties\<close>

lemmas slot_defs = resolve_slot_def variadic_shift_def slot_name_def py_index_def

lemmas level_defs = level_add_def empty_level_def assemble_def is_directed_acyclic_graph_def
  add_node_def add_edge_def str.simps digit_def

lemmas if_defs = if_graph_def if_node_def then_attribute_def else_attribute_def
  branches_attribute_def then_graph_def else_graph_def then_network_def else_network_def
  if_network_def onnx_env_def if_schema_def relu_schema_def gp_builtin_node_def

subsection \<open>The slot loops\<close>

lemma resolve_slot_in_range:
  "k < length slots \<Longrightarrow>
   resolve_slot slots (int k) vi =
     Inr (prm_name (slots ! k) @ (if vi \<noteq> 0 then ''_'' @ str vi else ''''), int k, vi)"
  by (simp add: slot_defs)

lemma clamp_in_range:
  "slots \<noteq> [] \<Longrightarrow>
   min (int k) (int (length slots) - 1) = int (min k (length slots - 1))
   \<and> min k (length slots - 1) < length slots"
  by (cases slots) (auto simp: min_def)

lemma gp_slots_clamped:
  assumes "slots \<noteq> []"
  shows "\<exists>x2x' so'.
      gp_slots slots io_info nid (int k) vs (vi, x2x, so) = Inr (vi, x2x', so')
    \<and> (\<forall>v. if v \<in> set vs \<and> map_of io_info v \<noteq> None
            then \<exists>i < length vs. vs ! i = v \<and>
                   map_of x2x' v =
                     Some (nid,
                           prm_name (slots ! min (k + i) (length slots - 1)) @
                             (if vi \<noteq> 0 then ''_'' @ str vi else ''''),
                           int (min (k + i) (length slots - 1)))
            else map_of x2x' v = map_of x2x v)"
proof (induction vs arbitrary: k x2x so)
  case Nil
  then show ?case by simp
next
  case (Cons a vs)
  have next_index: "int k + 1 = int (Suc k)"
    by simp
  show ?case
  proof (cases "map_of io_info a")
    case None
    from Cons.IH [of "Suc k" x2x so] obtain x2x' so' where
      run: "gp_slots slots io_info nid (int (Suc k)) vs (vi, x2x, so) = Inr (vi, x2x', so')" and
      ent: "\<forall>v. if v \<in> set vs \<and> map_of io_info v \<noteq> None
            then \<exists>i < length vs. vs ! i = v \<and>
                   map_of x2x' v =
                     Some (nid,
                           prm_name (slots ! min (Suc k + i) (length slots - 1)) @
                             (if vi \<noteq> 0 then ''_'' @ str vi else ''''),
                           int (min (Suc k + i) (length slots - 1)))
            else map_of x2x' v = map_of x2x v"
      by blast
    have "\<forall>v. if v \<in> set (a # vs) \<and> map_of io_info v \<noteq> None
            then \<exists>i < length (a # vs). (a # vs) ! i = v \<and>
                   map_of x2x' v =
                     Some (nid,
                           prm_name (slots ! min (k + i) (length slots - 1)) @
                             (if vi \<noteq> 0 then ''_'' @ str vi else ''''),
                           int (min (k + i) (length slots - 1)))
            else map_of x2x' v = map_of x2x v"
    proof
      fix v
      show "if v \<in> set (a # vs) \<and> map_of io_info v \<noteq> None
            then \<exists>i < length (a # vs). (a # vs) ! i = v \<and>
                   map_of x2x' v =
                     Some (nid,
                           prm_name (slots ! min (k + i) (length slots - 1)) @
                             (if vi \<noteq> 0 then ''_'' @ str vi else ''''),
                           int (min (k + i) (length slots - 1)))
            else map_of x2x' v = map_of x2x v"
      proof (cases "v \<in> set vs \<and> map_of io_info v \<noteq> None")
        case True
        with ent obtain i where "i < length vs" "vs ! i = v"
          "map_of x2x' v = Some (nid,
                           prm_name (slots ! min (Suc k + i) (length slots - 1)) @
                             (if vi \<noteq> 0 then ''_'' @ str vi else ''''),
                           int (min (Suc k + i) (length slots - 1)))"
          by (metis (no_types, lifting))
        then have "Suc i < length (a # vs) \<and> (a # vs) ! Suc i = v \<and>
          map_of x2x' v = Some (nid,
                           prm_name (slots ! min (k + Suc i) (length slots - 1)) @
                             (if vi \<noteq> 0 then ''_'' @ str vi else ''''),
                           int (min (k + Suc i) (length slots - 1)))"
          by simp
        with True show ?thesis
          by (metis (no_types, lifting) list.set_intros(2))
      next
        case False
        with ent have "map_of x2x' v = map_of x2x v"
          by (metis (no_types, lifting))
        with False None show ?thesis
          by auto
      qed
    qed
    with run None show ?thesis
      by (simp add: next_index del: of_nat_Suc)
  next
    case (Some info)
    let ?c = "min k (length slots - 1)"
    let ?name = "prm_name (slots ! ?c) @ (if vi \<noteq> 0 then ''_'' @ str vi else '''')"
    from clamp_in_range [OF assms, of k] have
      c: "min (int k) (int (length slots) - 1) = int ?c" "?c < length slots"
      by simp_all
    have res: "resolve_slot slots (min (int k) (int (length slots) - 1)) vi =
        Inr (?name, int ?c, vi)"
      using resolve_slot_in_range [OF c(2), of vi] c(1) by simp
    from Cons.IH [of "Suc k" "AList.update a (nid, ?name, int ?c) x2x" "AList.update ?name info so"]
    obtain x2x' so' where
      run: "gp_slots slots io_info nid (int (Suc k)) vs
              (vi, AList.update a (nid, ?name, int ?c) x2x, AList.update ?name info so) =
            Inr (vi, x2x', so')" and
      ent: "\<forall>v. if v \<in> set vs \<and> map_of io_info v \<noteq> None
            then \<exists>i < length vs. vs ! i = v \<and>
                   map_of x2x' v =
                     Some (nid,
                           prm_name (slots ! min (Suc k + i) (length slots - 1)) @
                             (if vi \<noteq> 0 then ''_'' @ str vi else ''''),
                           int (min (Suc k + i) (length slots - 1)))
            else map_of x2x' v = map_of (AList.update a (nid, ?name, int ?c) x2x) v"
      by blast
    have "\<forall>v. if v \<in> set (a # vs) \<and> map_of io_info v \<noteq> None
            then \<exists>i < length (a # vs). (a # vs) ! i = v \<and>
                   map_of x2x' v =
                     Some (nid,
                           prm_name (slots ! min (k + i) (length slots - 1)) @
                             (if vi \<noteq> 0 then ''_'' @ str vi else ''''),
                           int (min (k + i) (length slots - 1)))
            else map_of x2x' v = map_of x2x v"
    proof
      fix v
      show "if v \<in> set (a # vs) \<and> map_of io_info v \<noteq> None
            then \<exists>i < length (a # vs). (a # vs) ! i = v \<and>
                   map_of x2x' v =
                     Some (nid,
                           prm_name (slots ! min (k + i) (length slots - 1)) @
                             (if vi \<noteq> 0 then ''_'' @ str vi else ''''),
                           int (min (k + i) (length slots - 1)))
            else map_of x2x' v = map_of x2x v"
      proof (cases "v \<in> set vs \<and> map_of io_info v \<noteq> None")
        case True
        with ent obtain i where "i < length vs" "vs ! i = v"
          "map_of x2x' v = Some (nid,
                           prm_name (slots ! min (Suc k + i) (length slots - 1)) @
                             (if vi \<noteq> 0 then ''_'' @ str vi else ''''),
                           int (min (Suc k + i) (length slots - 1)))"
          by (metis (no_types, lifting))
        then have "Suc i < length (a # vs) \<and> (a # vs) ! Suc i = v \<and>
          map_of x2x' v = Some (nid,
                           prm_name (slots ! min (k + Suc i) (length slots - 1)) @
                             (if vi \<noteq> 0 then ''_'' @ str vi else ''''),
                           int (min (k + Suc i) (length slots - 1)))"
          by simp
        with True show ?thesis
          by (metis (no_types, lifting) list.set_intros(2))
      next
        case False
        with ent have same: "map_of x2x' v = map_of (AList.update a (nid, ?name, int ?c) x2x) v"
          by (metis (no_types, lifting))
        show ?thesis
        proof (cases "v = a")
          case True
          with same have "0 < length (a # vs) \<and> (a # vs) ! 0 = v \<and>
            map_of x2x' v = Some (nid,
                           prm_name (slots ! min (k + 0) (length slots - 1)) @
                             (if vi \<noteq> 0 then ''_'' @ str vi else ''''),
                           int (min (k + 0) (length slots - 1)))"
            by (simp add: update_conv')
          with True Some show ?thesis
            by (metis (no_types, lifting) list.set_intros(1) option.distinct(1))
        next
          case neq: False
          with same have "map_of x2x' v = map_of x2x v"
            by (simp add: update_conv')
          with False neq show ?thesis
            by auto
        qed
      qed
    qed
    with run Some res show ?thesis
      by (simp add: next_index del: of_nat_Suc)
  qed
qed


lemma slot_names_differ:
  "distinct (map prm_name slots) \<Longrightarrow> j < length slots \<Longrightarrow> k < length slots \<Longrightarrow>
   prm_name (slots ! j) = prm_name (slots ! k) \<longleftrightarrow> j = k"
  using nth_eq_iff_index_eq [of "map prm_name slots" j k] by simp

lemma gp_parameters_in_range:
  assumes "distinct (map prm_name slots)"
  shows "k + length vs \<le> length slots \<Longrightarrow>
    \<exists>ps'. gp_parameters slots pm_info (int k) vs (0, ps) = Inr (0, ps')
      \<and> (\<forall>j < length slots. map_of ps' (prm_name (slots ! j)) =
            (if k \<le> j \<and> j < k + length vs \<and> map_of pm_info (vs ! (j - k)) \<noteq> None
             then map_of pm_info (vs ! (j - k)) else map_of ps (prm_name (slots ! j))))"
proof (induction vs arbitrary: k ps)
  case Nil
  then show ?case by auto
next
  case (Cons a vs)
  have next_index: "int k + 1 = int (Suc k)"
    by simp
  from Cons.prems have k: "k < length slots" and rest: "Suc k + length vs \<le> length slots"
    by simp_all
  show ?case
  proof (cases "map_of pm_info a")
    case None
    from Cons.IH [OF rest, of ps] obtain ps' where
      run: "gp_parameters slots pm_info (int (Suc k)) vs (0, ps) = Inr (0, ps')" and
      ent: "\<forall>j < length slots. map_of ps' (prm_name (slots ! j)) =
            (if Suc k \<le> j \<and> j < Suc k + length vs \<and> map_of pm_info (vs ! (j - Suc k)) \<noteq> None
             then map_of pm_info (vs ! (j - Suc k)) else map_of ps (prm_name (slots ! j)))"
      by blast
    have "\<forall>j < length slots. map_of ps' (prm_name (slots ! j)) =
            (if k \<le> j \<and> j < k + length (a # vs) \<and> map_of pm_info ((a # vs) ! (j - k)) \<noteq> None
             then map_of pm_info ((a # vs) ! (j - k)) else map_of ps (prm_name (slots ! j)))"
    proof (intro allI impI)
      fix j assume j: "j < length slots"
      show "map_of ps' (prm_name (slots ! j)) =
            (if k \<le> j \<and> j < k + length (a # vs) \<and> map_of pm_info ((a # vs) ! (j - k)) \<noteq> None
             then map_of pm_info ((a # vs) ! (j - k)) else map_of ps (prm_name (slots ! j)))"
      proof (cases "j = k")
        case True
        with ent j None show ?thesis by simp
      next
        case False
        then have "k \<le> j \<longleftrightarrow> Suc k \<le> j" "k \<le> j \<Longrightarrow> (a # vs) ! (j - k) = vs ! (j - Suc k)"
          by (auto simp: nth_Cons' Suc_diff_le)
        with ent j show ?thesis
          by auto
      qed
    qed
    with run None show ?thesis
      by (simp add: next_index del: of_nat_Suc)
  next
    case (Some info)
    have res: "resolve_slot slots (int k) 0 = Inr (prm_name (slots ! k), int k, 0)"
      using resolve_slot_in_range [OF k, of 0] by simp
    from Cons.IH [OF rest, of "AList.update (prm_name (slots ! k)) info ps"] obtain ps' where
      run: "gp_parameters slots pm_info (int (Suc k)) vs
              (0, AList.update (prm_name (slots ! k)) info ps) = Inr (0, ps')" and
      ent: "\<forall>j < length slots. map_of ps' (prm_name (slots ! j)) =
            (if Suc k \<le> j \<and> j < Suc k + length vs \<and> map_of pm_info (vs ! (j - Suc k)) \<noteq> None
             then map_of pm_info (vs ! (j - Suc k))
             else map_of (AList.update (prm_name (slots ! k)) info ps) (prm_name (slots ! j)))"
      by blast
    have "\<forall>j < length slots. map_of ps' (prm_name (slots ! j)) =
            (if k \<le> j \<and> j < k + length (a # vs) \<and> map_of pm_info ((a # vs) ! (j - k)) \<noteq> None
             then map_of pm_info ((a # vs) ! (j - k)) else map_of ps (prm_name (slots ! j)))"
    proof (intro allI impI)
      fix j assume j: "j < length slots"
      show "map_of ps' (prm_name (slots ! j)) =
            (if k \<le> j \<and> j < k + length (a # vs) \<and> map_of pm_info ((a # vs) ! (j - k)) \<noteq> None
             then map_of pm_info ((a # vs) ! (j - k)) else map_of ps (prm_name (slots ! j)))"
      proof (cases "j = k")
        case True
        with ent j Some show ?thesis by (simp add: update_conv')
      next
        case False
        then have "k \<le> j \<longleftrightarrow> Suc k \<le> j" "k \<le> j \<Longrightarrow> (a # vs) ! (j - k) = vs ! (j - Suc k)"
          by (auto simp: nth_Cons' Suc_diff_le)
        moreover have "prm_name (slots ! j) \<noteq> prm_name (slots ! k)"
          using slot_names_differ [OF assms j k] False by simp
        ultimately show ?thesis
          using ent j by (auto simp: update_conv')
      qed
    qed
    with run Some res show ?thesis
      by (simp add: next_index del: of_nat_Suc)
  qed
qed

lemma gp_slots_in_range:
  assumes "distinct (map prm_name slots)"
  shows "k + length vs \<le> length slots \<Longrightarrow>
    \<exists>x2x' so'. gp_slots slots io_info nid (int k) vs (0, x2x, so) = Inr (0, x2x', so')
      \<and> (\<forall>j < length slots. map_of so' (prm_name (slots ! j)) =
            (if k \<le> j \<and> j < k + length vs \<and> map_of io_info (vs ! (j - k)) \<noteq> None
             then map_of io_info (vs ! (j - k)) else map_of so (prm_name (slots ! j))))"
proof (induction vs arbitrary: k x2x so)
  case Nil
  then show ?case by auto
next
  case (Cons a vs)
  have next_index: "int k + 1 = int (Suc k)"
    by simp
  from Cons.prems have k: "k < length slots" and rest: "Suc k + length vs \<le> length slots"
    by simp_all
  show ?case
  proof (cases "map_of io_info a")
    case None
    from Cons.IH [OF rest, of x2x so] obtain x2x' so' where
      run: "gp_slots slots io_info nid (int (Suc k)) vs (0, x2x, so) = Inr (0, x2x', so')" and
      ent: "\<forall>j < length slots. map_of so' (prm_name (slots ! j)) =
            (if Suc k \<le> j \<and> j < Suc k + length vs \<and> map_of io_info (vs ! (j - Suc k)) \<noteq> None
             then map_of io_info (vs ! (j - Suc k)) else map_of so (prm_name (slots ! j)))"
      by blast
    have "\<forall>j < length slots. map_of so' (prm_name (slots ! j)) =
            (if k \<le> j \<and> j < k + length (a # vs) \<and> map_of io_info ((a # vs) ! (j - k)) \<noteq> None
             then map_of io_info ((a # vs) ! (j - k)) else map_of so (prm_name (slots ! j)))"
    proof (intro allI impI)
      fix j assume j: "j < length slots"
      show "map_of so' (prm_name (slots ! j)) =
            (if k \<le> j \<and> j < k + length (a # vs) \<and> map_of io_info ((a # vs) ! (j - k)) \<noteq> None
             then map_of io_info ((a # vs) ! (j - k)) else map_of so (prm_name (slots ! j)))"
      proof (cases "j = k")
        case True
        with ent j None show ?thesis by simp
      next
        case False
        then have "k \<le> j \<longleftrightarrow> Suc k \<le> j" "k \<le> j \<Longrightarrow> (a # vs) ! (j - k) = vs ! (j - Suc k)"
          by (auto simp: nth_Cons' Suc_diff_le)
        with ent j show ?thesis
          by auto
      qed
    qed
    with run None show ?thesis
      by (simp add: next_index del: of_nat_Suc)
  next
    case (Some info)
    have clamp: "min (int k) (int (length slots) - 1) = int k"
      using k by simp
    have res: "resolve_slot slots (min (int k) (int (length slots) - 1)) 0 =
        Inr (prm_name (slots ! k), int k, 0)"
      using resolve_slot_in_range [OF k, of 0] clamp by simp
    from Cons.IH [OF rest, of "AList.update a (nid, prm_name (slots ! k), int k) x2x"
        "AList.update (prm_name (slots ! k)) info so"] obtain x2x' so' where
      run: "gp_slots slots io_info nid (int (Suc k)) vs
              (0, AList.update a (nid, prm_name (slots ! k), int k) x2x,
               AList.update (prm_name (slots ! k)) info so) = Inr (0, x2x', so')" and
      ent: "\<forall>j < length slots. map_of so' (prm_name (slots ! j)) =
            (if Suc k \<le> j \<and> j < Suc k + length vs \<and> map_of io_info (vs ! (j - Suc k)) \<noteq> None
             then map_of io_info (vs ! (j - Suc k))
             else map_of (AList.update (prm_name (slots ! k)) info so) (prm_name (slots ! j)))"
      by blast
    have "\<forall>j < length slots. map_of so' (prm_name (slots ! j)) =
            (if k \<le> j \<and> j < k + length (a # vs) \<and> map_of io_info ((a # vs) ! (j - k)) \<noteq> None
             then map_of io_info ((a # vs) ! (j - k)) else map_of so (prm_name (slots ! j)))"
    proof (intro allI impI)
      fix j assume j: "j < length slots"
      show "map_of so' (prm_name (slots ! j)) =
            (if k \<le> j \<and> j < k + length (a # vs) \<and> map_of io_info ((a # vs) ! (j - k)) \<noteq> None
             then map_of io_info ((a # vs) ! (j - k)) else map_of so (prm_name (slots ! j)))"
      proof (cases "j = k")
        case True
        with ent j Some show ?thesis by (simp add: update_conv')
      next
        case False
        then have "k \<le> j \<longleftrightarrow> Suc k \<le> j" "k \<le> j \<Longrightarrow> (a # vs) ! (j - k) = vs ! (j - Suc k)"
          by (auto simp: nth_Cons' Suc_diff_le)
        moreover have "prm_name (slots ! j) \<noteq> prm_name (slots ! k)"
          using slot_names_differ [OF assms j k] False by simp
        ultimately show ?thesis
          using ent j by (auto simp: update_conv')
      qed
    qed
    with run Some res show ?thesis
      by (simp add: next_index del: of_nat_Suc)
  qed
qed

subsection \<open>C1: fan-out\<close>

text \<open>
  C1 says that a value produced by one node and consumed by \<open>k\<close> nodes gives \<open>k\<close> edges
  out of the producer, one to each consumer. \<open>i2x\<close> is a dictionary from the value name
  to one consumer (lines 199, 244 and 278), so each consumer of a value overwrites the
  one before it, and the second pass (lines 300--313) finds the last consumer only.
  On \<open>fan_out_graph\<close>, where node 0 produces \<open>v\<close> and nodes 1 and 2 consume it, the
  extracted graph has the single edge from 0 to 2 and no edge from 0 to 1.
\<close>

theorem C1_fan_out_keeps_last_consumer:
  "extract_from_gp onnx_env [] False False fan_out_graph =
     Inr (\<lparr>nn_graph =
             \<lparr>g_nodes = [''0'', ''1'', ''2''],
              g_edges = [((''0'', ''2''),
                          \<lparr>u_opn = ''v'', v_opn = ''v'', u_opi = 0, v_opi = 0\<rparr>)]\<rparr>,
           nn_nodes =
             [(''0'', \<lparr>operator_type = ''Producer'', operator_domain = ''custom'',
                      attributes = [], parameters = [], operands = [],
                      results = [(''v'', ''T'')]\<rparr>),
              (''1'', \<lparr>operator_type = ''Consumer'', operator_domain = ''custom'',
                      attributes = [], parameters = [], operands = [(''v'', ''T'')],
                      results = [(''r1'', ''T1'')]\<rparr>),
              (''2'', \<lparr>operator_type = ''Consumer'', operator_domain = ''custom'',
                      attributes = [], parameters = [], operands = [(''v'', ''T'')],
                      results = [(''r2'', ''T2'')]\<rparr>)],
           nn_size = 3, is_sub = False, is_fnc = False\<rparr>, [])"
  by (simp add: fan_out_graph_def onnx_env_def gp_call_node_def level_defs)

subsection \<open>C2: variadic slot names\<close>

text \<open>
  C2 says that four inputs for the slots \<open>a\<close> and \<open>b\<close>, \<open>b\<close> variadic, are named \<open>a\<close>,
  \<open>b\<close>, \<open>b_1\<close>, \<open>b_2\<close>, and that the outputs are numbered on their own. In
  \<open>extract_from_gp\<close> the index is cut to the last slot (line 238) before the test of
  line 240, which is then never true: the four inputs are named \<open>a\<close>, \<open>b\<close>, \<open>b\<close>, \<open>b\<close>
  and the operands keep the last of them only. In \<open>extract_from_fp\<close> the inputs get
  the names of the claim, but the counter is not set back before the result loop
  (line 99, against line 248): the single output of the node is named \<open>y_2\<close>.
\<close>

theorem C2_variadic_names_at_concat:
  "gp_builtin_node concat_schema [] concat_io_info ''0'' concat_node [] [] [] =
     Inr (\<lparr>operator_type = ''Concat'', operator_domain = '''', attributes = [],
           parameters = [],
           operands = [(''a'', ''T0''), (''b'', ''T3'')],
           results = [(''y'', ''T4'')]\<rparr>,
          [(''x0'', ''0'', ''a'', 0), (''x1'', ''0'', ''b'', 1),
           (''x2'', ''0'', ''b'', 1), (''x3'', ''0'', ''b'', 1)],
          [(''out'', ''0'', ''y'', 0)])
   \<and> fp_builtin_node concat_schema ''0'' concat_node [] [] [] =
     Inr (\<lparr>operator_type = ''Concat'', operator_domain = '''', attributes = [],
           parameters = [],
           operands = [(''a'', ''x0''), (''b'', ''x1''), (''b_1'', ''x2''), (''b_2'', ''x3'')],
           results = [(''y_2'', ''out'')]\<rparr>,
          [(''x0'', ''0'', ''a'', 0), (''x1'', ''0'', ''b'', 1),
           (''x2'', ''0'', ''b_1'', 1), (''x3'', ''0'', ''b_2'', 1)],
          [(''out'', ''0'', ''y_2'', 0)])"
  by (simp add: gp_builtin_node_def fp_builtin_node_def concat_schema_def concat_node_def
      concat_io_info_def slot_defs str.simps digit_def)

subsection \<open>C3: one extraction for each function\<close>

text \<open>
  A node of a function body that calls a function still unresolved never gets
  through: the nested extraction raises, or line 123 does.
\<close>

lemma fp_call_node_raw_fails:
  "map_of fp_networks (np_op_type n, np_domain n) = Some (Raw f) \<Longrightarrow>
   \<exists>e. fp_call_node nested env fp_networks nid n i2x o2x = Inl e"
  by (simp add: fp_call_node_def split: sum.splits)

text \<open>
  C3 says that the first reference to a function extracts it and writes its network
  into the registry, also when the reference comes from another function's body. In
  \<open>forward_call_model\<close> the body of \<open>F\<close> calls \<open>G\<close>, declared after \<open>F\<close>:
  \<open>extract_from_fp\<close> extracts the body of \<open>G\<close> (line 122) and then raises \<open>NameError\<close> at
  line 123, whose key names a variable \<open>function\<close> that does not exist there. The call
  of \<open>extract_networks\<close> ends with that exception and the registry still holds both
  functions unresolved, whatever \<open>deep_extract\<close> is and however deep the interpreter
  lets the recursion go beyond these two calls.
\<close>

theorem C3_forward_call_raises:
  "extract_networks_registry (Suc (Suc depth)) onnx_env forward_call_model deep_extract =
     ([((''F'', ''custom''),
        Raw \<lparr>fn_name = ''F'', fn_domain = ''custom'',
             fn_node = [NodeProto ''G'' ''custom'' [''x''] [''y''] []]\<rparr>),
       ((''G'', ''custom''),
        Raw \<lparr>fn_name = ''G'', fn_domain = ''custom'', fn_node = []\<rparr>)],
      Inl NameError)"
  by (simp add: extract_networks_registry_def forward_call_model_def onnx_env_def
        fp_call_node_def level_defs)

subsection \<open>C10: a call of an unknown operator\<close>

lemma gp_raw_slots_map:
  "map_of (snd (gp_raw_slots io_info nid i vs (x2x, sl))) v =
     (if v \<in> set vs \<and> map_of io_info v \<noteq> None then map_of io_info v else map_of sl v)"
  by (induction vs arbitrary: i x2x sl) (auto simp: update_conv' split: option.splits)

lemma gp_raw_slots_index:
  assumes "map_of (fst (gp_raw_slots io_info nid i vs (x2x, sl))) v = Some s"
  shows "map_of x2x v = Some s \<or> (fst s = nid \<and> fst (snd s) = v)"
  using assms
proof (induction vs arbitrary: i x2x sl)
  case Nil
  then show ?case by simp
next
  case (Cons a vs)
  show ?case
  proof (cases "map_of io_info a")
    case None
    with Cons show ?thesis by simp
  next
    case (Some t)
    with Cons.prems have "map_of (fst (gp_raw_slots io_info nid (i + 1) vs
        (AList.update a (nid, a, i) x2x, AList.update a t sl))) v = Some s"
      by simp
    from Cons.IH [OF this] show ?thesis
      by (auto simp: update_conv' split: if_splits)
  qed
qed

lemma fp_raw_slots_map:
  "map_of (snd (fp_raw_slots nid i vs (x2x, sl))) v =
     (if v \<in> set vs then Some v else map_of sl v)"
  by (induction vs arbitrary: i x2x sl) (auto simp: update_conv')

lemma fp_raw_slots_index:
  assumes "map_of (fst (fp_raw_slots nid i vs (x2x, sl))) v = Some s"
  shows "map_of x2x v = Some s \<or> (fst s = nid \<and> fst (snd s) = v)"
  using assms
proof (induction vs arbitrary: i x2x sl)
  case Nil
  then show ?case by simp
next
  case (Cons a vs)
  from Cons.prems have "map_of (fst (fp_raw_slots nid (i + 1) vs
      (AList.update a (nid, a, i) x2x, AList.update a a sl))) v = Some s"
    by simp
  from Cons.IH [OF this] show ?case
    by (auto simp: update_conv' split: if_splits)
qed

lemma gp_unknown_call:
  assumes "np_domain n \<notin> set (operator_domains env)"
    and "map_of fp_networks (np_op_type n, np_domain n) = None"
  shows "\<exists>nd i2x o2x.
      gp_nodes env fp_networks deep_extract pm_info io_info k (n # rest) lv =
        gp_nodes env fp_networks deep_extract pm_info io_info (Suc k) rest
          (level_add (str k) nd i2x o2x (lv_deep lv) lv)
    \<and> attributes nd = [] \<and> parameters nd = []
    \<and> map_of (operands nd) = (\<lambda>v. if v \<in> set (np_input n) then map_of io_info v else None)
    \<and> map_of (results nd) = (\<lambda>v. if v \<in> set (np_output n) then map_of io_info v else None)
    \<and> (\<forall>v s. map_of i2x v = Some s \<longrightarrow> map_of (lv_i2x lv) v = Some s \<or> fst (snd s) = v)
    \<and> (\<forall>v s. map_of o2x v = Some s \<longrightarrow> map_of (lv_o2x lv) v = Some s \<or> fst (snd s) = v)"
proof -
  obtain i2x ops where i: "gp_raw_slots io_info (str k) 0 (np_input n) (lv_i2x lv, []) = (i2x, ops)"
    by (cases "gp_raw_slots io_info (str k) 0 (np_input n) (lv_i2x lv, [])")
  obtain o2x res where o: "gp_raw_slots io_info (str k) 0 (np_output n) (lv_o2x lv, []) = (o2x, res)"
    by (cases "gp_raw_slots io_info (str k) 0 (np_output n) (lv_o2x lv, [])")
  define nd where "nd = \<lparr>operator_type = np_op_type n, operator_domain = np_domain n,
    attributes = [], parameters = [], operands = ops, results = res\<rparr>"
  have step: "gp_nodes env fp_networks deep_extract pm_info io_info k (n # rest) lv =
      gp_nodes env fp_networks deep_extract pm_info io_info (Suc k) rest (level_add (str k) nd i2x o2x (lv_deep lv) lv)"
    using assms i o by (cases n) (simp add: gp_call_node_def nd_def)
  have ops: "map_of (operands nd) = (\<lambda>v. if v \<in> set (np_input n) then map_of io_info v else None)"
    using gp_raw_slots_map [of io_info "str k" 0 "np_input n" "lv_i2x lv" "[]"] i
    by (auto simp: fun_eq_iff nd_def)
  have res: "map_of (results nd) = (\<lambda>v. if v \<in> set (np_output n) then map_of io_info v else None)"
    using gp_raw_slots_map [of io_info "str k" 0 "np_output n" "lv_o2x lv" "[]"] o
    by (auto simp: fun_eq_iff nd_def)
  have i2x: "\<forall>v s. map_of i2x v = Some s \<longrightarrow> map_of (lv_i2x lv) v = Some s \<or> fst (snd s) = v"
  proof (intro allI impI)
    fix v s assume "map_of i2x v = Some s"
    then have "map_of (fst (gp_raw_slots io_info (str k) 0 (np_input n) (lv_i2x lv, []))) v = Some s"
      using i by simp
    from gp_raw_slots_index [OF this] show "map_of (lv_i2x lv) v = Some s \<or> fst (snd s) = v"
      by blast
  qed
  have o2x: "\<forall>v s. map_of o2x v = Some s \<longrightarrow> map_of (lv_o2x lv) v = Some s \<or> fst (snd s) = v"
  proof (intro allI impI)
    fix v s assume "map_of o2x v = Some s"
    then have "map_of (fst (gp_raw_slots io_info (str k) 0 (np_output n) (lv_o2x lv, []))) v = Some s"
      using o by simp
    from gp_raw_slots_index [OF this] show "map_of (lv_o2x lv) v = Some s \<or> fst (snd s) = v"
      by blast
  qed
  have "attributes nd = []" "parameters nd = []"
    by (simp_all add: nd_def)
  with step ops res i2x o2x show ?thesis
    by blast
qed

lemma fp_unknown_call:
  assumes "np_domain n \<notin> set (operator_domains env)"
    and "map_of fp_networks (np_op_type n, np_domain n) = None"
  shows "\<exists>nd i2x o2x.
      fp_nodes nested env fp_networks deep_extract k (n # rest) lv =
        fp_nodes nested env fp_networks deep_extract (Suc k) rest
          (level_add (str k) nd i2x o2x (lv_deep lv) lv)
    \<and> attributes nd = [] \<and> parameters nd = []
    \<and> map_of (operands nd) = (\<lambda>v. if v \<in> set (np_input n) then Some v else None)
    \<and> map_of (results nd) = (\<lambda>v. if v \<in> set (np_output n) then Some v else None)
    \<and> (\<forall>v s. map_of i2x v = Some s \<longrightarrow> map_of (lv_i2x lv) v = Some s \<or> fst (snd s) = v)
    \<and> (\<forall>v s. map_of o2x v = Some s \<longrightarrow> map_of (lv_o2x lv) v = Some s \<or> fst (snd s) = v)"
proof -
  obtain i2x ops where i: "fp_raw_slots (str k) 0 (np_input n) (lv_i2x lv, []) = (i2x, ops)"
    by (cases "fp_raw_slots (str k) 0 (np_input n) (lv_i2x lv, [])")
  obtain o2x res where o: "fp_raw_slots (str k) 0 (np_output n) (lv_o2x lv, []) = (o2x, res)"
    by (cases "fp_raw_slots (str k) 0 (np_output n) (lv_o2x lv, [])")
  define nd where "nd = \<lparr>operator_type = np_op_type n, operator_domain = np_domain n,
    attributes = [], parameters = [], operands = ops, results = res\<rparr>"
  have step: "fp_nodes nested env fp_networks deep_extract k (n # rest) lv =
      fp_nodes nested env fp_networks deep_extract (Suc k) rest (level_add (str k) nd i2x o2x (lv_deep lv) lv)"
    using assms i o by (cases n) (simp add: fp_call_node_def nd_def)
  have ops: "map_of (operands nd) = (\<lambda>v. if v \<in> set (np_input n) then Some v else None)"
    using fp_raw_slots_map [of "str k" 0 "np_input n" "lv_i2x lv" "[]"] i
    by (auto simp: fun_eq_iff nd_def)
  have res: "map_of (results nd) = (\<lambda>v. if v \<in> set (np_output n) then Some v else None)"
    using fp_raw_slots_map [of "str k" 0 "np_output n" "lv_o2x lv" "[]"] o
    by (auto simp: fun_eq_iff nd_def)
  have i2x: "\<forall>v s. map_of i2x v = Some s \<longrightarrow> map_of (lv_i2x lv) v = Some s \<or> fst (snd s) = v"
  proof (intro allI impI)
    fix v s assume "map_of i2x v = Some s"
    then have "map_of (fst (fp_raw_slots (str k) 0 (np_input n) (lv_i2x lv, []))) v = Some s"
      using i by simp
    from fp_raw_slots_index [OF this] show "map_of (lv_i2x lv) v = Some s \<or> fst (snd s) = v"
      by blast
  qed
  have o2x: "\<forall>v s. map_of o2x v = Some s \<longrightarrow> map_of (lv_o2x lv) v = Some s \<or> fst (snd s) = v"
  proof (intro allI impI)
    fix v s assume "map_of o2x v = Some s"
    then have "map_of (fst (fp_raw_slots (str k) 0 (np_output n) (lv_o2x lv, []))) v = Some s"
      using o by simp
    from fp_raw_slots_index [OF this] show "map_of (lv_o2x lv) v = Some s \<or> fst (snd s) = v"
      by blast
  qed
  have "attributes nd = []" "parameters nd = []"
    by (simp_all add: nd_def)
  with step ops res i2x o2x show ?thesis
    by blast
qed


text \<open>
  C10: a node whose domain is not a built-in domain and whose type and domain are not
  in the registry does not stop the extraction. In a graph and in a function body,
  the first pass goes on to the next node with a \<open>Node\<close> whose attributes and
  parameters are empty; in a graph its operands and results are the annotated inputs
  and outputs under their own names, in a function body all inputs and outputs under
  their own names; the slot name written to \<open>i2x\<close> and \<open>o2x\<close> for a value is the value
  name.
\<close>

theorem C10_unknown_call_is_normalized:
  assumes "np_domain n \<notin> set (operator_domains env)"
    and "map_of fp_networks (np_op_type n, np_domain n) = None"
  shows "(\<exists>nd i2x o2x.
      gp_nodes env fp_networks deep_extract pm_info io_info k (n # rest) lv =
        gp_nodes env fp_networks deep_extract pm_info io_info (Suc k) rest
          (level_add (str k) nd i2x o2x (lv_deep lv) lv)
    \<and> attributes nd = [] \<and> parameters nd = []
    \<and> map_of (operands nd) = (\<lambda>v. if v \<in> set (np_input n) then map_of io_info v else None)
    \<and> map_of (results nd) = (\<lambda>v. if v \<in> set (np_output n) then map_of io_info v else None)
    \<and> (\<forall>v s. map_of i2x v = Some s \<longrightarrow> map_of (lv_i2x lv) v = Some s \<or> fst (snd s) = v)
    \<and> (\<forall>v s. map_of o2x v = Some s \<longrightarrow> map_of (lv_o2x lv) v = Some s \<or> fst (snd s) = v))
  \<and> (\<exists>nd i2x o2x.
      fp_nodes nested env fp_networks deep_extract k (n # rest) lv =
        fp_nodes nested env fp_networks deep_extract (Suc k) rest
          (level_add (str k) nd i2x o2x (lv_deep lv) lv)
    \<and> attributes nd = [] \<and> parameters nd = []
    \<and> map_of (operands nd) = (\<lambda>v. if v \<in> set (np_input n) then Some v else None)
    \<and> map_of (results nd) = (\<lambda>v. if v \<in> set (np_output n) then Some v else None)
    \<and> (\<forall>v s. map_of i2x v = Some s \<longrightarrow> map_of (lv_i2x lv) v = Some s \<or> fst (snd s) = v)
    \<and> (\<forall>v s. map_of o2x v = Some s \<longrightarrow> map_of (lv_o2x lv) v = Some s \<or> fst (snd s) = v))"
  by (rule conjI) (rule gp_unknown_call [OF assms], rule fp_unknown_call [OF assms])

text \<open>The hypotheses of C10 hold for \<open>custom_node\<close> with the empty registry.\<close>

theorem C10_unknown_call_witness:
  "np_domain custom_node \<notin> set (operator_domains onnx_env)
   \<and> map_of ([] :: registry) (np_op_type custom_node, np_domain custom_node) = None
   \<and> (\<exists>nd i2x o2x.
        gp_nodes onnx_env [] False [] [(''x'', ''T'')] 0 [custom_node] empty_level =
          gp_nodes onnx_env [] False [] [(''x'', ''T'')] (Suc 0) []
            (level_add (str 0) nd i2x o2x (lv_deep empty_level) empty_level)
      \<and> attributes nd = [] \<and> parameters nd = []
      \<and> map_of (operands nd) =
          (\<lambda>v. if v \<in> set (np_input custom_node) then map_of [(''x'', ''T'')] v else None))
   \<and> (\<exists>nd i2x o2x.
        fp_nodes (\<lambda>f. Inl RecursionError) onnx_env [] False 0 [custom_node] empty_level =
          fp_nodes (\<lambda>f. Inl RecursionError) onnx_env [] False (Suc 0) []
            (level_add (str 0) nd i2x o2x (lv_deep empty_level) empty_level)
      \<and> attributes nd = [] \<and> parameters nd = []
      \<and> map_of (operands nd) =
          (\<lambda>v. if v \<in> set (np_input custom_node) then Some v else None))"
proof -
  have h1: "np_domain custom_node \<notin> set (operator_domains onnx_env)"
    by (simp add: custom_node_def onnx_env_def)
  have h2: "map_of ([] :: registry) (np_op_type custom_node, np_domain custom_node) = None"
    by simp
  from C10_unknown_call_is_normalized [OF h1 h2, where deep_extract = False and pm_info = "[]"
      and io_info = "[(''x'', ''T'')]" and k = 0 and rest = "[]" and lv = empty_level
      and nested = "\<lambda>f. Inl RecursionError"]
  show ?thesis
    using h1 h2 by blast
qed

subsection \<open>C5: shallow and deep extraction\<close>

lemma extract_attribute_shallow:
  "ap_type a = GRAPH \<or> ap_type a = GRAPHS \<Longrightarrow>
   extract_attribute env fp_networks False a = Inr (Identifiers [], [])"
  by (cases a) auto

lemma extract_attribute_shallow_found:
  "extract_attribute env fp_networks False a = Inr (v, found) \<Longrightarrow> found = []"
  by (cases a) (auto split: if_splits)

lemma extract_attributes_shallow:
  "extract_attributes env fp_networks False attrs (A, D) = Inr (A', D') \<Longrightarrow> D' = D"
proof (induction attrs arbitrary: A D)
  case Nil
  then show ?case by simp
next
  case (Cons a attrs)
  then show ?case
    by (auto split: sum.splits dest!: extract_attribute_shallow_found)
qed

lemma gp_nodes_shallow:
  "gp_nodes env fp_networks False pm_info io_info k nodes lv = Inr lv' \<Longrightarrow>
   lv_deep lv' = lv_deep lv"
proof (induction nodes arbitrary: k lv)
  case Nil
  then show ?case by simp
next
  case (Cons n nodes)
  obtain ty dmn ins outs attrs where n: "n = NodeProto ty dmn ins outs attrs"
    by (cases n)
  show ?case
    using Cons.prems unfolding n
    by (auto split: if_splits option.splits sum.splits simp: level_add_def
        dest!: Cons.IH extract_attributes_shallow)
qed

lemma extract_from_gp_shallow:
  "extract_from_gp env fp_networks False sub gp = Inr (net, deep) \<Longrightarrow> deep = []"
  by (cases gp)
     (auto split: sum.splits if_splits simp: assemble_def empty_level_def dest!: gp_nodes_shallow)

lemma extract_from_gp_tags:
  "extract_from_gp env fp_networks deep_extract sub gp = Inr (net, deep) \<Longrightarrow>
   is_sub net = sub \<and> \<not> is_fnc net"
  by (cases gp) (auto split: sum.splits if_splits simp: assemble_def)

lemma extract_graphs_results:
  "extract_graphs env fp_networks deep_extract gs (E, D) = Inr (E', D') \<Longrightarrow>
   \<exists>rs. list_all2 (\<lambda>g r. extract_from_gp env fp_networks deep_extract True g = Inr r) gs rs
      \<and> E' = E @ map fst rs \<and> D' = D @ concat (map snd rs)"
proof (induction gs arbitrary: E D)
  case Nil
  then show ?case by simp
next
  case (Cons g gs)
  from Cons.prems obtain s ds where
    g: "extract_from_gp env fp_networks deep_extract True g = Inr (s, ds)" and
    rest: "extract_graphs env fp_networks deep_extract gs (E @ [s], D @ ds) = Inr (E', D')"
    by (auto split: sum.splits)
  from Cons.IH [OF rest] obtain rs where
    rs: "list_all2 (\<lambda>g r. extract_from_gp env fp_networks deep_extract True g = Inr r) gs rs"
      "E' = (E @ [s]) @ map fst rs" "D' = (D @ ds) @ concat (map snd rs)"
    by blast
  show ?case
    by (rule exI [of _ "(s, ds) # rs"]) (use g rs in simp)
qed

lemma extract_attribute_graph:
  assumes "ap_type a = GRAPH"
    and "extract_attribute env fp_networks True a = Inr (v, found)"
  shows "\<exists>s ds. extract_from_gp env fp_networks True True (ap_g a) = Inr (s, ds)
      \<and> is_sub s \<and> v = Identifiers [net_identifier env s] \<and> found = s # ds"
  using assms
  by (cases a) (auto split: sum.splits dest: extract_from_gp_tags)

lemma extract_attribute_graphs:
  assumes "ap_type a = GRAPHS"
    and "extract_attribute env fp_networks True a = Inr (v, found)"
  shows "\<exists>rs. list_all2 (\<lambda>g r. extract_from_gp env fp_networks True True g = Inr r)
                 (ap_graphs a) rs
      \<and> (\<forall>r \<in> set rs. is_sub (fst r))
      \<and> v = Identifiers (map (\<lambda>r. net_identifier env (fst r)) rs)
      \<and> found = map fst rs @ concat (map snd rs)"
proof -
  obtain name ty g gs d where a: "a = AttributeProto name ty g gs d"
    by (cases a)
  from assms obtain E D where
    gs: "extract_graphs env fp_networks True gs ([], []) = Inr (E, D)" and
    v: "v = Identifiers (map (net_identifier env) E)" and found: "found = E @ D"
    unfolding a by (auto split: sum.splits)
  from extract_graphs_results [OF gs] obtain rs where
    rs: "list_all2 (\<lambda>g r. extract_from_gp env fp_networks True True g = Inr r) gs rs"
      "E = map fst rs" "D = concat (map snd rs)"
    by auto
  have "\<forall>r \<in> set rs. is_sub (fst r)"
  proof
    fix r assume "r \<in> set rs"
    then obtain i where "i < length rs" "rs ! i = r"
      by (auto simp: in_set_conv_nth)
    with rs(1) have "extract_from_gp env fp_networks True True (gs ! i) = Inr r"
      by (auto simp: list_all2_conv_all_nth)
    then show "is_sub (fst r)"
      using extract_from_gp_tags [of env fp_networks True True "gs ! i" "fst r" "snd r"] by simp
  qed
  with rs v found show ?thesis
    unfolding a by (auto simp: comp_def intro!: exI [of _ rs])
qed

lemma extract_attributes_found:
  assumes "extract_attributes env fp_networks deep_extract attrs (A, D) = Inr (A', D')"
  shows "set D \<subseteq> set D' \<and>
    (\<forall>a \<in> set attrs. \<exists>v found.
        extract_attribute env fp_networks deep_extract a = Inr (v, found) \<and> set found \<subseteq> set D')"
  using assms
proof (induction attrs arbitrary: A D)
  case Nil
  then show ?case by simp
next
  case (Cons a attrs)
  from Cons.prems obtain v found where
    a: "extract_attribute env fp_networks deep_extract a = Inr (v, found)" and
    rest: "extract_attributes env fp_networks deep_extract attrs
             (AList.update (ap_name a) v A, D @ found) = Inr (A', D')"
    by (auto split: sum.splits)
  from Cons.IH [OF rest] a show ?case
    by auto
qed

lemma gp_nodes_found:
  assumes "gp_nodes env fp_networks deep_extract pm_info io_info k nodes lv = Inr lv'"
  shows "set (lv_deep lv) \<subseteq> set (lv_deep lv') \<and>
    (\<forall>n \<in> set nodes. np_domain n \<in> set (operator_domains env) \<longrightarrow>
       (\<forall>a \<in> set (np_attribute n). \<exists>v found.
          extract_attribute env fp_networks deep_extract a = Inr (v, found) \<and>
          set found \<subseteq> set (lv_deep lv')))"
  using assms
proof (induction nodes arbitrary: k lv)
  case Nil
  then show ?case by simp
next
  case (Cons n nodes)
  obtain ty dmn ins outs attrs where n: "n = NodeProto ty dmn ins outs attrs"
    by (cases n)
  show ?case
  proof (cases "dmn \<in> set (operator_domains env)")
    case True
    with Cons.prems obtain operator A D nd i2x o2x where
      attrs: "extract_attributes env fp_networks deep_extract attrs ([], lv_deep lv) = Inr (A, D)" and
      rest: "gp_nodes env fp_networks deep_extract pm_info io_info (Suc k) nodes
               (level_add (str k) nd i2x o2x D lv) = Inr lv'"
      unfolding n by (auto split: option.splits sum.splits)
    from Cons.IH [OF rest] extract_attributes_found [OF attrs] show ?thesis
      unfolding n by (simp add: level_add_def) blast
  next
    case False
    with Cons.prems obtain nd i2x o2x where
      rest: "gp_nodes env fp_networks deep_extract pm_info io_info (Suc k) nodes
               (level_add (str k) nd i2x o2x (lv_deep lv) lv) = Inr lv'"
      unfolding n by (auto split: sum.splits)
    from Cons.IH [OF rest] False show ?thesis
      unfolding n by (simp add: level_add_def)
  qed
qed

lemma extract_from_gp_found:
  assumes "extract_from_gp env fp_networks deep_extract sub gp = Inr (net, deep)"
    and "n \<in> set (gp_node gp)" and "np_domain n \<in> set (operator_domains env)"
    and "a \<in> set (np_attribute n)"
  shows "\<exists>v found. extract_attribute env fp_networks deep_extract a = Inr (v, found)
      \<and> set found \<subseteq> set deep"
proof -
  obtain nodes inits ins vis outs where gp: "gp = GraphProto nodes inits ins vis outs"
    by (cases gp)
  from assms(1) obtain pm_info lv where
    lv: "gp_nodes env fp_networks deep_extract pm_info
           (build_io_info outs (build_io_info vis (build_io_info ins []))) 0 nodes empty_level = Inr lv"
    and deep: "deep = lv_deep lv"
    unfolding gp by (auto split: sum.splits if_splits simp: assemble_def)
  from gp_nodes_found [OF lv] assms(2-4) deep show ?thesis
    unfolding gp by auto
qed

text \<open>
  C5: without deep extraction a graph attribute (\<open>GRAPH\<close> or \<open>GRAPHS\<close>) of a built-in
  node gets the empty list, and the extraction of a graph finds no network below it.
  With deep extraction a \<open>GRAPH\<close> attribute is the extraction of its graph with
  \<open>is_sub\<close> true: the value is the list of that network's identifier, and the network
  with all it found is what the attribute adds to \<open>deep_networks\<close>; a \<open>GRAPHS\<close>
  attribute is the same for each graph of its list, in order; and whatever the
  attributes of a built-in node of a graph add is in the list the extraction of the
  graph returns.
\<close>

theorem C5_shallow_and_deep:
  "(ap_type a = GRAPH \<or> ap_type a = GRAPHS \<longrightarrow>
      extract_attribute env fp_networks False a = Inr (Identifiers [], []))
   \<and> (extract_from_gp env fp_networks False sub gp = Inr (net, deep) \<longrightarrow> deep = [])
   \<and> (ap_type a1 = GRAPH \<and> extract_attribute env fp_networks True a1 = Inr (v1, found1) \<longrightarrow>
        (\<exists>s ds. extract_from_gp env fp_networks True True (ap_g a1) = Inr (s, ds)
           \<and> is_sub s \<and> v1 = Identifiers [net_identifier env s] \<and> found1 = s # ds))
   \<and> (ap_type a2 = GRAPHS \<and> extract_attribute env fp_networks True a2 = Inr (v2, found2) \<longrightarrow>
        (\<exists>rs. list_all2 (\<lambda>g r. extract_from_gp env fp_networks True True g = Inr r)
                 (ap_graphs a2) rs
           \<and> (\<forall>r \<in> set rs. is_sub (fst r))
           \<and> v2 = Identifiers (map (\<lambda>r. net_identifier env (fst r)) rs)
           \<and> found2 = map fst rs @ concat (map snd rs)))
   \<and> (extract_from_gp env fp_networks True sub' gp' = Inr (net', deep')
        \<and> n \<in> set (gp_node gp') \<and> np_domain n \<in> set (operator_domains env)
        \<and> b \<in> set (np_attribute n) \<longrightarrow>
        (\<exists>v found. extract_attribute env fp_networks True b = Inr (v, found)
           \<and> set found \<subseteq> set deep'))"
proof (intro conjI impI)
  assume "ap_type a = GRAPH \<or> ap_type a = GRAPHS"
  then show "extract_attribute env fp_networks False a = Inr (Identifiers [], [])"
    by (rule extract_attribute_shallow)
next
  assume "extract_from_gp env fp_networks False sub gp = Inr (net, deep)"
  then show "deep = []"
    by (rule extract_from_gp_shallow)
next
  assume "ap_type a1 = GRAPH \<and> extract_attribute env fp_networks True a1 = Inr (v1, found1)"
  then show "\<exists>s ds. extract_from_gp env fp_networks True True (ap_g a1) = Inr (s, ds)
           \<and> is_sub s \<and> v1 = Identifiers [net_identifier env s] \<and> found1 = s # ds"
    using extract_attribute_graph by blast
next
  assume "ap_type a2 = GRAPHS \<and> extract_attribute env fp_networks True a2 = Inr (v2, found2)"
  then show "\<exists>rs. list_all2 (\<lambda>g r. extract_from_gp env fp_networks True True g = Inr r)
                 (ap_graphs a2) rs
           \<and> (\<forall>r \<in> set rs. is_sub (fst r))
           \<and> v2 = Identifiers (map (\<lambda>r. net_identifier env (fst r)) rs)
           \<and> found2 = map fst rs @ concat (map snd rs)"
    using extract_attribute_graphs by blast
next
  assume "extract_from_gp env fp_networks True sub' gp' = Inr (net', deep')
        \<and> n \<in> set (gp_node gp') \<and> np_domain n \<in> set (operator_domains env)
        \<and> b \<in> set (np_attribute n)"
  then show "\<exists>v found. extract_attribute env fp_networks True b = Inr (v, found)
           \<and> set found \<subseteq> set deep'"
    using extract_from_gp_found by blast
qed

text \<open>
  The hypotheses of C5 hold for the \<open>If\<close> node of \<open>if_graph\<close>: \<open>extract_network\<close> gives
  the empty list for both branches, and the deep extraction returns the two networks
  of the branches, both with \<open>is_sub\<close> true.
\<close>

theorem C5_shallow_and_deep_witness:
  "ap_type then_attribute = GRAPH
   \<and> extract_attribute onnx_env [] False then_attribute = Inr (Identifiers [], [])
   \<and> extract_network onnx_env \<lparr>m_graph = if_graph, m_functions = []\<rparr> =
       Inr (if_network (Identifiers []) (Identifiers []))
   \<and> extract_attribute onnx_env [] True then_attribute =
       Inr (Identifiers [''g1''], [then_network])
   \<and> is_sub then_network
   \<and> ap_type branches_attribute = GRAPHS
   \<and> extract_attribute onnx_env [] True branches_attribute =
       Inr (Identifiers [''g1'', ''g0''], [then_network, else_network])
   \<and> extract_from_gp onnx_env [] True False if_graph =
       Inr (if_network (Identifiers [''g1'']) (Identifiers [''g0'']),
            [then_network, else_network])
   \<and> if_node \<in> set (gp_node if_graph)
   \<and> np_domain if_node \<in> set (operator_domains onnx_env)
   \<and> else_attribute \<in> set (np_attribute if_node)
   \<and> (\<exists>v found. extract_attribute onnx_env [] True else_attribute = Inr (v, found)
         \<and> set found \<subseteq> set [then_network, else_network])"
proof -
  have shallow: "extract_from_gp onnx_env [] False False if_graph =
      Inr (if_network (Identifiers []) (Identifiers []), [])"
    by (simp add: if_defs slot_defs level_defs)
  have t: "extract_attribute onnx_env [] True then_attribute =
      Inr (Identifiers [''g1''], [then_network])"
    by (simp add: if_defs slot_defs level_defs)
  have bs: "extract_attribute onnx_env [] True branches_attribute =
      Inr (Identifiers [''g1'', ''g0''], [then_network, else_network])"
    by (simp add: if_defs slot_defs level_defs)
  have deep: "extract_from_gp onnx_env [] True False if_graph =
      Inr (if_network (Identifiers [''g1'']) (Identifiers [''g0'']),
           [then_network, else_network])"
    by (simp add: if_defs slot_defs level_defs)
  have mem: "if_node \<in> set (gp_node if_graph)"
    "np_domain if_node \<in> set (operator_domains onnx_env)"
    "else_attribute \<in> set (np_attribute if_node)"
    "ap_type then_attribute = GRAPH" "ap_type branches_attribute = GRAPHS"
    "is_sub then_network"
    by (simp_all add: if_defs)
  from C5_shallow_and_deep [where env = onnx_env and fp_networks = "[]"
      and a = then_attribute and sub = False and gp = if_graph
      and net = "if_network (Identifiers []) (Identifiers [])" and deep = "[]"
      and ?a1.0 = then_attribute and ?v1.0 = "Identifiers [''g1'']" and ?found1.0 = "[then_network]"
      and ?a2.0 = branches_attribute and ?v2.0 = "Identifiers [''g1'', ''g0'']"
      and ?found2.0 = "[then_network, else_network]"
      and sub' = False and gp' = if_graph
      and net' = "if_network (Identifiers [''g1'']) (Identifiers [''g0''])"
      and deep' = "[then_network, else_network]" and n = if_node and b = else_attribute]
  have "extract_attribute onnx_env [] False then_attribute = Inr (Identifiers [], [])"
    and "\<exists>v found. extract_attribute onnx_env [] True else_attribute = Inr (v, found)
         \<and> set found \<subseteq> set [then_network, else_network]"
    using mem deep by blast+
  with shallow t bs deep mem show ?thesis
    by (simp add: extract_network_def)
qed

subsection \<open>C6: the tags of a function body\<close>

lemma extract_from_fp_tags:
  "extract_from_fp depth env fp_networks deep_extract sub f = Inr (net, deep) \<Longrightarrow>
   is_sub net = sub \<and> is_fnc net"
  by (cases depth) (auto split: sum.splits if_splits simp: assemble_def)

lemma seed_registry_resolved:
  "map_of (seed_registry fs fp_networks) key = Some (Resolved net) \<Longrightarrow>
   map_of fp_networks key = Some (Resolved net)"
proof (induction fs arbitrary: fp_networks)
  case Nil
  then show ?case by simp
next
  case (Cons f fs)
  from Cons.prems have "map_of (seed_registry fs
      (AList.update (fn_name f, fn_domain f) (Raw f) fp_networks)) key = Some (Resolved net)"
    by simp
  from Cons.IH [OF this] show ?case
    by (auto simp: update_conv' split: if_splits)
qed

lemma resolve_functions_tags:
  assumes "resolve_functions depth env deep_extract fs fp_networks deep_networks = (reg, r)"
    and "\<forall>key net. map_of fp_networks key = Some (Resolved net) \<longrightarrow> is_sub net \<and> is_fnc net"
  shows "\<forall>key net. map_of reg key = Some (Resolved net) \<longrightarrow> is_sub net \<and> is_fnc net"
  using assms
proof (induction fs arbitrary: fp_networks deep_networks)
  case Nil
  then show ?case by simp
next
  case (Cons f fs)
  show ?case
  proof (cases "map_of fp_networks (fn_name f, fn_domain f)")
    case None
    with Cons.prems show ?thesis by simp
  next
    case (Some entry)
    show ?thesis
    proof (cases entry)
      case (Raw raw)
      show ?thesis
      proof (cases "extract_from_fp depth env fp_networks deep_extract True f")
        case (Inl e)
        with Cons.prems Some Raw show ?thesis by simp
      next
        case (Inr res)
        obtain fp_network fp_deep where res: "res = (fp_network, fp_deep)"
          by (cases res)
        from Inr res have tags: "is_sub fp_network \<and> is_fnc fp_network"
          using extract_from_fp_tags [of depth env fp_networks deep_extract True f fp_network fp_deep]
          by simp
        have step: "resolve_functions depth env deep_extract fs
            (AList.update (fn_name f, fn_domain f) (Resolved fp_network) fp_networks)
            (deep_networks @ [fp_network] @ fp_deep) = (reg, r)"
          using Cons.prems(1) Some Raw Inr res by simp
        have "\<forall>key net. map_of (AList.update (fn_name f, fn_domain f) (Resolved fp_network)
            fp_networks) key = Some (Resolved net) \<longrightarrow> is_sub net \<and> is_fnc net"
          using Cons.prems(2) tags by (auto simp: update_conv')
        from Cons.IH [OF step this] show ?thesis .
      qed
    next
      case (Resolved fp_network)
      with Cons.prems Some have step: "resolve_functions depth env deep_extract fs fp_networks
          (deep_networks @ [fp_network]) = (reg, r)"
        by simp
      from Cons.IH [OF step Cons.prems(2)] show ?thesis .
    qed
  qed
qed

lemma extract_networks_registry_fst:
  "fst (extract_networks_registry depth env m deep_extract) =
   fst (resolve_functions depth env deep_extract (m_functions m)
          (seed_registry (m_functions m) []) [])"
  by (auto simp: extract_networks_registry_def split: prod.splits sum.splits)

text \<open>
  C6, as amended: every function body that \<open>extract_networks\<close> resolves is a network
  with \<open>is_sub\<close> true and \<open>is_fnc\<close> true. Line 43 passes \<open>is_sub=True\<close> and line 169
  sets \<open>is_fnc=True\<close>; the networks of the registry at the end of the call, whatever
  its outcome, all carry both tags.
\<close>

theorem C6_function_bodies_are_sub:
  assumes "extract_networks_registry depth env m deep_extract = (fp_networks, r)"
    and "map_of fp_networks key = Some (Resolved net)"
  shows "is_sub net \<and> is_fnc net"
proof -
  obtain reg r' where loop: "resolve_functions depth env deep_extract (m_functions m)
      (seed_registry (m_functions m) []) [] = (reg, r')"
    by (cases "resolve_functions depth env deep_extract (m_functions m)
      (seed_registry (m_functions m) []) []")
  with assms(1) have reg: "reg = fp_networks"
    using extract_networks_registry_fst [of depth env m deep_extract] by simp
  have "\<forall>key net. map_of (seed_registry (m_functions m) []) key = Some (Resolved net) \<longrightarrow>
      is_sub net \<and> is_fnc net"
    by (auto dest: seed_registry_resolved)
  from resolve_functions_tags [OF loop this] assms(2) reg show ?thesis
    by blast
qed

text \<open>
  C6 as it is written says that a function body is not marked as a sub-graph. For
  \<open>one_function_model\<close> the list returned by \<open>extract_networks\<close> holds the network of the
  function \<open>G\<close>, and its \<open>is_sub\<close> is true.
\<close>

theorem C6_claimed_tag_counterexample:
  "extract_networks 1 onnx_env one_function_model False =
     Inr (\<lparr>nn_graph = \<lparr>g_nodes = [], g_edges = []\<rparr>, nn_nodes = [], nn_size = 0,
           is_sub = False, is_fnc = False\<rparr>,
          [\<lparr>nn_graph = \<lparr>g_nodes = [], g_edges = []\<rparr>, nn_nodes = [], nn_size = 0,
            is_sub = True, is_fnc = True\<rparr>])"
  by (simp add: extract_networks_def extract_networks_registry_def one_function_model_def
        onnx_env_def level_defs)

text \<open>The hypotheses of the amended C6 hold for \<open>one_function_model\<close>.\<close>

theorem C6_function_bodies_are_sub_witness:
  "extract_networks_registry 1 onnx_env one_function_model False =
     ([((''G'', ''custom''), Resolved empty_function_network)],
      Inr (\<lparr>nn_graph = \<lparr>g_nodes = [], g_edges = []\<rparr>, nn_nodes = [], nn_size = 0,
            is_sub = False, is_fnc = False\<rparr>, [empty_function_network]))
   \<and> map_of [((''G'', ''custom''), Resolved empty_function_network)] (''G'', ''custom'') =
       Some (Resolved empty_function_network)
   \<and> is_sub empty_function_network \<and> is_fnc empty_function_network"
proof -
  have run: "extract_networks_registry 1 onnx_env one_function_model False =
     ([((''G'', ''custom''), Resolved empty_function_network)],
      Inr (\<lparr>nn_graph = \<lparr>g_nodes = [], g_edges = []\<rparr>, nn_nodes = [], nn_size = 0,
            is_sub = False, is_fnc = False\<rparr>, [empty_function_network]))"
    by (simp add: extract_networks_registry_def one_function_model_def
        onnx_env_def level_defs empty_function_network_def)
  have look: "map_of [((''G'', ''custom''), Resolved empty_function_network)]
      (''G'', ''custom'') = Some (Resolved empty_function_network)"
    by simp
  from C6_function_bodies_are_sub [OF run look] run look show ?thesis
    by blast
qed

subsection \<open>C9: the registry when a graph is cyclic\<close>

lemma resolve_functions_keeps:
  assumes "resolve_functions depth env deep_extract fs fp_networks deep_networks = (reg, r)"
    and "map_of fp_networks key = Some (Resolved net)"
  shows "map_of reg key = Some (Resolved net)"
  using assms
proof (induction fs arbitrary: fp_networks deep_networks)
  case Nil
  then show ?case by simp
next
  case (Cons f fs)
  show ?case
  proof (cases "map_of fp_networks (fn_name f, fn_domain f)")
    case None
    with Cons.prems show ?thesis by simp
  next
    case (Some entry)
    show ?thesis
    proof (cases entry)
      case (Raw raw)
      show ?thesis
      proof (cases "extract_from_fp depth env fp_networks deep_extract True f")
        case (Inl e)
        with Cons.prems Some Raw show ?thesis by simp
      next
        case (Inr res)
        obtain fp_network fp_deep where res: "res = (fp_network, fp_deep)"
          by (cases res)
        have step: "resolve_functions depth env deep_extract fs
            (AList.update (fn_name f, fn_domain f) (Resolved fp_network) fp_networks)
            (deep_networks @ [fp_network] @ fp_deep) = (reg, r)"
          using Cons.prems(1) Some Raw Inr res by simp
        have "key \<noteq> (fn_name f, fn_domain f)"
          using Cons.prems(2) Some Raw by auto
        then have "map_of (AList.update (fn_name f, fn_domain f) (Resolved fp_network)
            fp_networks) key = Some (Resolved net)"
          using Cons.prems(2) by (simp add: update_conv')
        from Cons.IH [OF step this] show ?thesis .
      qed
    next
      case (Resolved fp_network)
      with Cons.prems Some have step: "resolve_functions depth env deep_extract fs fp_networks
          (deep_networks @ [fp_network]) = (reg, r)"
        by simp
      from Cons.IH [OF step Cons.prems(2)] show ?thesis .
    qed
  qed
qed

lemma resolve_functions_append:
  "resolve_functions depth env deep_extract (pre @ post) fp_networks deep_networks =
     (case resolve_functions depth env deep_extract pre fp_networks deep_networks of
        (reg, Inl e) \<Rightarrow> (reg, Inl e)
      | (reg, Inr found) \<Rightarrow> resolve_functions depth env deep_extract post reg found)"
  by (induction pre arbitrary: fp_networks deep_networks)
     (auto split: option.splits registry_entry.splits sum.splits prod.splits)

text \<open>
  C9: when \<open>extract_networks\<close> ends with the assertion of acyclicity failing, every
  registry entry that was a network at some moment of the loop over the functions,
  that is after a first part \<open>pre\<close> of the functions was resolved, is the same network
  in the registry as the failure leaves it.
\<close>

theorem C9_failure_keeps_resolved:
  assumes "extract_networks_registry depth env m deep_extract = (fp_networks, Inl AssertNotDAG)"
    and "m_functions m = pre @ post"
    and "resolve_functions depth env deep_extract pre (seed_registry (m_functions m) []) [] =
           (before, Inr found)"
    and "map_of before key = Some (Resolved net)"
  shows "map_of fp_networks key = Some (Resolved net)"
proof -
  obtain reg r where rest: "resolve_functions depth env deep_extract post before found = (reg, r)"
    by (cases "resolve_functions depth env deep_extract post before found")
  have "resolve_functions depth env deep_extract (m_functions m)
      (seed_registry (m_functions m) []) [] = (reg, r)"
    using assms(3) rest resolve_functions_append [of depth env deep_extract pre post
        "seed_registry (m_functions m) []" "[]"]
    by (simp add: assms(2))
  then have "fp_networks = reg"
    using assms(1) extract_networks_registry_fst [of depth env m deep_extract] by simp
  with resolve_functions_keeps [OF rest assms(4)] show ?thesis
    by simp
qed

text \<open>
  The hypotheses of C9 hold for \<open>cyclic_function_model\<close>: \<open>G\<close> is resolved, the body of
  \<open>H\<close> is cyclic and the call fails, and \<open>G\<close> is still resolved in the registry.
\<close>

theorem C9_failure_keeps_resolved_witness:
  "extract_networks_registry 1 onnx_env cyclic_function_model False =
     ([((''G'', ''custom''), Resolved empty_function_network),
       ((''H'', ''custom''),
        Raw \<lparr>fn_name = ''H'', fn_domain = ''custom'',
             fn_node = [NodeProto ''Custom'' ''custom'' [''x''] [''x''] []]\<rparr>)],
      Inl AssertNotDAG)
   \<and> m_functions cyclic_function_model =
       [\<lparr>fn_name = ''G'', fn_domain = ''custom'', fn_node = []\<rparr>] @
       [\<lparr>fn_name = ''H'', fn_domain = ''custom'',
         fn_node = [NodeProto ''Custom'' ''custom'' [''x''] [''x''] []]\<rparr>]
   \<and> resolve_functions 1 onnx_env False
         [\<lparr>fn_name = ''G'', fn_domain = ''custom'', fn_node = []\<rparr>]
         (seed_registry (m_functions cyclic_function_model) []) [] =
       ([((''G'', ''custom''), Resolved empty_function_network),
         ((''H'', ''custom''),
          Raw \<lparr>fn_name = ''H'', fn_domain = ''custom'',
               fn_node = [NodeProto ''Custom'' ''custom'' [''x''] [''x''] []]\<rparr>)],
        Inr [empty_function_network])
   \<and> map_of (fst (extract_networks_registry 1 onnx_env cyclic_function_model False))
         (''G'', ''custom'') = Some (Resolved empty_function_network)"
proof -
  have run: "extract_networks_registry 1 onnx_env cyclic_function_model False =
     ([((''G'', ''custom''), Resolved empty_function_network),
       ((''H'', ''custom''),
        Raw \<lparr>fn_name = ''H'', fn_domain = ''custom'',
             fn_node = [NodeProto ''Custom'' ''custom'' [''x''] [''x''] []]\<rparr>)],
      Inl AssertNotDAG)"
    by (simp add: extract_networks_registry_def cyclic_function_model_def
        onnx_env_def fp_call_node_def level_defs empty_function_network_def)
  have split: "m_functions cyclic_function_model =
       [\<lparr>fn_name = ''G'', fn_domain = ''custom'', fn_node = []\<rparr>] @
       [\<lparr>fn_name = ''H'', fn_domain = ''custom'',
         fn_node = [NodeProto ''Custom'' ''custom'' [''x''] [''x''] []]\<rparr>]"
    by (simp add: cyclic_function_model_def)
  have pre: "resolve_functions 1 onnx_env False
         [\<lparr>fn_name = ''G'', fn_domain = ''custom'', fn_node = []\<rparr>]
         (seed_registry (m_functions cyclic_function_model) []) [] =
       ([((''G'', ''custom''), Resolved empty_function_network),
         ((''H'', ''custom''),
          Raw \<lparr>fn_name = ''H'', fn_domain = ''custom'',
               fn_node = [NodeProto ''Custom'' ''custom'' [''x''] [''x''] []]\<rparr>)],
        Inr [empty_function_network])"
    by (simp add: cyclic_function_model_def onnx_env_def level_defs empty_function_network_def)
  have look: "map_of [((''G'', ''custom''), Resolved empty_function_network),
         ((''H'', ''custom''),
          Raw \<lparr>fn_name = ''H'', fn_domain = ''custom'',
               fn_node = [NodeProto ''Custom'' ''custom'' [''x''] [''x''] []]\<rparr>)]
      (''G'', ''custom'') = Some (Resolved empty_function_network)"
    by simp
  from C9_failure_keeps_resolved [OF run split pre look] run split pre show ?thesis
    by simp
qed

subsection \<open>C8: positions beyond the declared slots\<close>




subsection \<open>C7: parameters and operands\<close>

text \<open>
  C7, as amended: for a built-in node of a graph that has no more inputs than its
  schema has input slots (of distinct names; the schema has an output slot), the
  input at position \<open>i\<close> is under \<open>parameters\<close>, at the name of slot \<open>i\<close>, exactly when
  it is an initializer, and it is under \<open>operands\<close>, at the same name, exactly when it
  is annotated, whether it is an initializer or not. An input that is both is in both
  mappings.
\<close>

theorem C7_parameters_and_operands:
  assumes "length (np_input n) \<le> length (inputs operator)"
    and "distinct (map prm_name (inputs operator))"
    and "outputs operator \<noteq> []"
  shows "\<exists>nd i2x' o2x'.
      gp_builtin_node operator pm_info io_info nid n attrs i2x o2x = Inr (nd, i2x', o2x')
    \<and> (\<forall>i < length (np_input n).
          map_of (parameters nd) (prm_name (inputs operator ! i)) =
            map_of pm_info (np_input n ! i)
        \<and> map_of (operands nd) (prm_name (inputs operator ! i)) =
            map_of io_info (np_input n ! i))"
proof -
  from assms(1) have fit: "0 + length (np_input n) \<le> length (inputs operator)"
    by simp
  from gp_parameters_in_range [OF assms(2) fit, of pm_info "[]"] obtain ps where
    ps: "gp_parameters (inputs operator) pm_info 0 (np_input n) (0, []) = Inr (0, ps)" and
    ps_ent: "\<forall>j < length (inputs operator). map_of ps (prm_name (inputs operator ! j)) =
        (if 0 \<le> j \<and> j < 0 + length (np_input n) \<and> map_of pm_info (np_input n ! (j - 0)) \<noteq> None
         then map_of pm_info (np_input n ! (j - 0)) else map_of [] (prm_name (inputs operator ! j)))"
    by auto
  from gp_slots_in_range [OF assms(2) fit, of io_info nid i2x "[]"] obtain i2x' ops where
    ops: "gp_slots (inputs operator) io_info nid 0 (np_input n) (0, i2x, []) = Inr (0, i2x', ops)" and
    ops_ent: "\<forall>j < length (inputs operator). map_of ops (prm_name (inputs operator ! j)) =
        (if 0 \<le> j \<and> j < 0 + length (np_input n) \<and> map_of io_info (np_input n ! (j - 0)) \<noteq> None
         then map_of io_info (np_input n ! (j - 0)) else map_of [] (prm_name (inputs operator ! j)))"
    by auto
  from gp_slots_clamped [OF assms(3), of io_info nid 0 "np_output n" 0 o2x "[]"] obtain o2x' res where
    res: "gp_slots (outputs operator) io_info nid 0 (np_output n) (0, o2x, []) = Inr (0, o2x', res)"
    by auto
  define nd where "nd = \<lparr>operator_type = np_op_type n, operator_domain = np_domain n,
    attributes = attrs, parameters = ps, operands = ops, results = res\<rparr>"
  have run: "gp_builtin_node operator pm_info io_info nid n attrs i2x o2x = Inr (nd, i2x', o2x')"
    using ps ops res by (simp add: gp_builtin_node_def nd_def)
  have "\<forall>i < length (np_input n).
          map_of (parameters nd) (prm_name (inputs operator ! i)) =
            map_of pm_info (np_input n ! i)
        \<and> map_of (operands nd) (prm_name (inputs operator ! i)) =
            map_of io_info (np_input n ! i)"
  proof (intro allI impI)
    fix i assume i: "i < length (np_input n)"
    with assms(1) have "i < length (inputs operator)"
      by simp
    with ps_ent ops_ent i show "map_of (parameters nd) (prm_name (inputs operator ! i)) =
            map_of pm_info (np_input n ! i)
        \<and> map_of (operands nd) (prm_name (inputs operator ! i)) =
            map_of io_info (np_input n ! i)"
      by (auto simp: nd_def)
  qed
  with run show ?thesis
    by blast
qed

text \<open>
  C7 as it is written says that \<open>operands\<close> holds the annotated inputs other than the
  initializers, so that no input is in both mappings. The tests of lines 228 and 239
  are independent: for \<open>relu_weight_node\<close>, whose only input \<open>W\<close> is an initializer
  and is annotated, \<open>parameters\<close> and \<open>operands\<close> both get an entry for \<open>W\<close>.
\<close>

theorem C7_initializer_in_both_counterexample:
  "gp_builtin_node relu_schema [(''W'', \<lparr>dims = [''dims''], dataType = ''1''\<rparr>)]
      [(''W'', ''TW''), (''out'', ''TO'')] ''0'' relu_weight_node [] [] [] =
     Inr (\<lparr>operator_type = ''Relu'', operator_domain = '''', attributes = [],
           parameters = [(''X'', \<lparr>dims = [''dims''], dataType = ''1''\<rparr>)],
           operands = [(''X'', ''TW'')], results = [(''Y'', ''TO'')]\<rparr>,
          [(''W'', ''0'', ''X'', 0)], [(''out'', ''0'', ''Y'', 0)])"
  by (simp add: gp_builtin_node_def relu_schema_def relu_weight_node_def slot_defs)

text \<open>The hypotheses of the amended C7 hold for \<open>relu_weight_node\<close>.\<close>

theorem C7_parameters_and_operands_witness:
  "length (np_input relu_weight_node) \<le> length (inputs relu_schema)
   \<and> distinct (map prm_name (inputs relu_schema))
   \<and> outputs relu_schema \<noteq> []
   \<and> (\<exists>nd i2x' o2x'.
        gp_builtin_node relu_schema [(''W'', \<lparr>dims = [''dims''], dataType = ''1''\<rparr>)]
          [(''W'', ''TW''), (''out'', ''TO'')] ''0'' relu_weight_node [] [] [] =
          Inr (nd, i2x', o2x')
      \<and> map_of (parameters nd) ''X'' = Some \<lparr>dims = [''dims''], dataType = ''1''\<rparr>
      \<and> map_of (operands nd) ''X'' = Some ''TW'')"
proof -
  have h: "length (np_input relu_weight_node) \<le> length (inputs relu_schema)"
    "distinct (map prm_name (inputs relu_schema))"
    "outputs relu_schema \<noteq> []"
    by (simp_all add: relu_schema_def relu_weight_node_def)
  from C7_parameters_and_operands [OF h,
      of "[(''W'', \<lparr>dims = [''dims''], dataType = ''1''\<rparr>)]"
         "[(''W'', ''TW''), (''out'', ''TO'')]" "''0''" "[]" "[]" "[]"]
  obtain nd i2x' o2x' where
    run: "gp_builtin_node relu_schema [(''W'', \<lparr>dims = [''dims''], dataType = ''1''\<rparr>)]
          [(''W'', ''TW''), (''out'', ''TO'')] ''0'' relu_weight_node [] [] [] =
          Inr (nd, i2x', o2x')" and
    ent: "\<forall>i < length (np_input relu_weight_node).
          map_of (parameters nd) (prm_name (inputs relu_schema ! i)) =
            map_of [(''W'', \<lparr>dims = [''dims''], dataType = ''1''\<rparr>)] (np_input relu_weight_node ! i)
        \<and> map_of (operands nd) (prm_name (inputs relu_schema ! i)) =
            map_of [(''W'', ''TW''), (''out'', ''TO'')] (np_input relu_weight_node ! i)"
    by blast
  from ent have "map_of (parameters nd) ''X'' = Some \<lparr>dims = [''dims''], dataType = ''1''\<rparr>
      \<and> map_of (operands nd) ''X'' = Some ''TW''"
    by (simp add: relu_schema_def relu_weight_node_def)
  with run h show ?thesis
    by blast
qed

subsection \<open>C4: acyclic networks\<close>

lemma comes_before_append_left:
  "u \<in> set xs \<Longrightarrow> v \<in> set ys \<Longrightarrow> comes_before (xs @ ys) u v"
  by (induction xs) auto

lemma comes_before_append_right:
  "u \<notin> set xs \<Longrightarrow> comes_before ys u v \<Longrightarrow> comes_before (xs @ ys) u v"
  by (induction xs) auto

lemma peel_order:
  assumes "peel k vs es" and "distinct vs"
    and "\<forall>e \<in> set es. fst e \<in> set vs \<and> snd e \<in> set vs"
  shows "\<exists>order. distinct order \<and> set order = set vs \<and>
    (\<forall>e \<in> set es. comes_before order (fst e) (snd e))"
  using assms
proof (induction k arbitrary: vs es)
  case 0
  then have "vs = []"
    by simp
  with "0.prems"(3) have "es = []"
    by (cases es) auto
  with \<open>vs = []\<close> show ?case by simp
next
  case (Suc k)
  show ?case
  proof (cases "vs = []")
    case True
    with Suc.prems(3) have "es = []"
      by (cases es) auto
    with True show ?thesis by simp
  next
    case False
    let ?srcs = "filter (\<lambda>v. v \<notin> snd ` set es) vs"
    let ?rest = "filter (\<lambda>v. v \<in> snd ` set es) vs"
    let ?es = "filter (\<lambda>e. fst e \<in> snd ` set es) es"
    from Suc.prems(1) False have run: "peel k ?rest ?es"
      by (simp split: if_splits)
    have "distinct ?rest"
      using Suc.prems(2) by simp
    moreover have "\<forall>e \<in> set ?es. fst e \<in> set ?rest \<and> snd e \<in> set ?rest"
      using Suc.prems(3) by auto
    ultimately obtain order where
      order: "distinct order" "set order = set ?rest"
        "\<forall>e \<in> set ?es. comes_before order (fst e) (snd e)"
      using Suc.IH [OF run] by blast
    have "distinct (?srcs @ order)"
      using Suc.prems(2) order by auto
    moreover have "set (?srcs @ order) = set vs"
      using order by auto
    moreover have "\<forall>e \<in> set es. comes_before (?srcs @ order) (fst e) (snd e)"
    proof
      fix e assume e: "e \<in> set es"
      with Suc.prems(3) have target: "snd e \<in> set order"
        using order(2) by auto
      show "comes_before (?srcs @ order) (fst e) (snd e)"
      proof (cases "fst e \<in> set ?srcs")
        case True
        then show ?thesis
          using target by (rule comes_before_append_left)
      next
        case False
        with e Suc.prems(3) have "e \<in> set ?es"
          by auto
        with order(3) have "comes_before order (fst e) (snd e)"
          by blast
        with False show ?thesis
          by (rule comes_before_append_right)
      qed
    qed
    ultimately show ?thesis
      by blast
  qed
qed

lemma dag_has_order:
  assumes "closed_graph g" and "is_directed_acyclic_graph g"
  shows "\<exists>order. topological_order order g"
proof -
  from assms have "peel (length (g_nodes g)) (g_nodes g) (map fst (g_edges g))"
    "distinct (g_nodes g)"
    "\<forall>e \<in> set (map fst (g_edges g)). fst e \<in> set (g_nodes g) \<and> snd e \<in> set (g_nodes g)"
    by (auto simp: closed_graph_def is_directed_acyclic_graph_def)
  from peel_order [OF this] show ?thesis
    by (auto simp: topological_order_def)
qed

text \<open>The position of a vertex in an ordering.\<close>

lemma comes_before_member:
  "comes_before order u v \<Longrightarrow> u \<in> set order \<and> v \<in> set order"
  by (induction order) (auto split: if_splits)

lemma comes_before_position:
  "comes_before order u v \<Longrightarrow> distinct order \<Longrightarrow>
   length (takeWhile (\<lambda>x. x \<noteq> u) order) < length (takeWhile (\<lambda>x. x \<noteq> v) order)"
  by (induction order) (auto split: if_splits dest: comes_before_member)

lemma order_no_cycle:
  assumes "topological_order order g"
  shows "\<not> has_cycle g"
proof -
  let ?pos = "\<lambda>v. length (takeWhile (\<lambda>x. x \<noteq> v) order)"
  have step: "(u, v) \<in> fst ` set (g_edges g) \<Longrightarrow> ?pos u < ?pos v" for u v
    using assms comes_before_position [of order u v]
    by (force simp: topological_order_def)
  have "(u, v) \<in> (fst ` set (g_edges g))\<^sup>+ \<Longrightarrow> ?pos u < ?pos v" for u v
  proof (induction rule: trancl.induct)
    case (r_into_trancl a b)
    then show ?case by (rule step)
  next
    case (trancl_into_trancl a b c)
    with step [of b c] show ?case by simp
  qed
  then show ?thesis
    by (fastforce simp: has_cycle_def)
qed

text \<open>
  On the graphs that \<open>add_node\<close> and \<open>add_edge\<close> build, the check accepts exactly the
  graphs without a cycle.
\<close>

lemma peel_complete:
  assumes "acyclic (set es)" and "\<forall>e \<in> set es. fst e \<in> set vs"
    and "length vs \<le> k"
  shows "peel k vs es"
  using assms
proof (induction k arbitrary: vs es)
  case 0
  then show ?case by simp
next
  case (Suc k)
  show ?case
  proof (cases "vs = []")
    case True
    then show ?thesis by simp
  next
    case False
    let ?srcs = "filter (\<lambda>v. v \<notin> snd ` set es) vs"
    let ?rest = "filter (\<lambda>v. v \<in> snd ` set es) vs"
    let ?es = "filter (\<lambda>e. fst e \<in> snd ` set es) es"
    have "wf (set es)"
      using Suc.prems(1) by (simp add: finite_acyclic_wf)
    moreover from False obtain x where "x \<in> set vs"
      by (cases vs) auto
    ultimately obtain z where z: "z \<in> set vs" "\<And>y. (y, z) \<in> set es \<Longrightarrow> y \<notin> set vs"
      by (rule wfE_min) blast
    have "z \<notin> snd ` set es"
    proof
      assume "z \<in> snd ` set es"
      then obtain y where "(y, z) \<in> set es"
        by auto
      with z(2) Suc.prems(2) show False
        by fastforce
    qed
    with z(1) have srcs: "?srcs \<noteq> []"
      by (auto simp: filter_empty_conv)
    have "length ?rest + length ?srcs = length vs"
      using sum_length_filter_compl [of "\<lambda>v. v \<in> snd ` set es" vs] by simp
    moreover from srcs have "0 < length ?srcs"
      by simp
    ultimately have len: "length ?rest \<le> k"
      using Suc.prems(3) by linarith
    have "acyclic (set ?es)"
      using Suc.prems(1) by (rule acyclic_subset) auto
    moreover have "\<forall>e \<in> set ?es. fst e \<in> set ?rest"
      using Suc.prems(2) by auto
    ultimately have "peel k ?rest ?es"
      using len by (intro Suc.IH)
    with False srcs show ?thesis
      by simp
  qed
qed

lemma acyclic_check_exact:
  assumes "closed_graph g"
  shows "is_directed_acyclic_graph g \<longleftrightarrow> \<not> has_cycle g"
proof
  assume "is_directed_acyclic_graph g"
  with dag_has_order [OF assms] order_no_cycle show "\<not> has_cycle g"
    by blast
next
  assume "\<not> has_cycle g"
  then have "acyclic (set (map fst (g_edges g)))"
    by (simp add: has_cycle_def acyclic_def)
  moreover have "\<forall>e \<in> set (map fst (g_edges g)). fst e \<in> set (g_nodes g)"
    using assms by (auto simp: closed_graph_def)
  ultimately show "is_directed_acyclic_graph g"
    unfolding is_directed_acyclic_graph_def by (intro peel_complete) simp_all
qed



















end
